theory Spec2Isabelle
  imports Complex_Main "HOL-Library.Word"
begin

section \<open>Go integers and float64 arithmetic\<close>

text \<open>
  The package \<^verbatim>\<open>ctrl\<close> computes with Go's \<^verbatim>\<open>int\<close>, which is a 64-bit two's
  complement integer on the 64-bit platforms the program is built for: \<open>+\<close> wraps around
  and \<open>>\<close> compares signed values.
\<close>

type_synonym go_int = "64 word"

text \<open>
  Two expressions of the source go through \<^verbatim>\<open>float64\<close>:
  \<^verbatim>\<open>int(float64(accumulatedTurns)*1.8)\<close> and \<^verbatim>\<open>int(float64(v)*tick)\<close>.
  A finite \<^verbatim>\<open>float64\<close> is modelled as the dyadic rational \<open>m / 2 ^ k\<close>, stored as the
  pair of \<open>m\<close> and \<open>k\<close>. IEEE 754 binary64 arithmetic returns the exact result rounded to
  53 significant bits, ties to even; \<open>rne53\<close> is that rounding on the magnitude of the
  numerator. The exponent range is not modelled: every magnitude that occurs here is 0
  or lies between \<open>2 ^ - 2\<close> and \<open>2 ^ 65\<close>, far from overflow and from the subnormals.
\<close>

fun bit_length :: "nat \<Rightarrow> nat" where
  "bit_length n = (if n = 0 then 0 else Suc (bit_length (n div 2)))"

declare bit_length.simps [simp del]

definition rne53 :: "nat \<Rightarrow> nat" where
  "rne53 n =
     (let s = bit_length n - 53; q = n div 2 ^ s; r = n mod 2 ^ s
      in if 2 * r < 2 ^ s \<or> (2 * r = 2 ^ s \<and> even q) then q * 2 ^ s else (q + 1) * 2 ^ s)"

datatype float64 = Float64 (numer: int) (scale: nat)

definition round_float64 :: "int \<Rightarrow> nat \<Rightarrow> float64" where
  "round_float64 m k = Float64 (sgn m * int (rne53 (nat \<bar>m\<bar>))) k"

text \<open>\<^verbatim>\<open>float64(n)\<close> for an \<^verbatim>\<open>int\<close> \<open>n\<close>: the nearest \<^verbatim>\<open>float64\<close>.\<close>

definition float64_of_int :: "int \<Rightarrow> float64" where
  "float64_of_int n = round_float64 n 0"

text \<open>\<^verbatim>\<open>x * y\<close> on \<^verbatim>\<open>float64\<close>: the exact product, rounded.\<close>

fun float64_mul :: "float64 \<Rightarrow> float64 \<Rightarrow> float64" where
  "float64_mul (Float64 m1 k1) (Float64 m2 k2) = round_float64 (m1 * m2) (k1 + k2)"

text \<open>The integer part of a \<^verbatim>\<open>float64\<close>: Go's conversion discards the fraction
  (truncation towards zero).\<close>

fun float64_trunc :: "float64 \<Rightarrow> int" where
  "float64_trunc (Float64 m k) = sgn m * (\<bar>m\<bar> div 2 ^ k)"

text \<open>
  \<^verbatim>\<open>int(x)\<close> for a \<^verbatim>\<open>float64\<close> \<open>x\<close>. When the integer part does not fit the
  \<^verbatim>\<open>int\<close>, the Go specification leaves the result to the implementation; that result
  is the parameter \<open>impl\<close>.
\<close>

definition go_int_of_float64 :: "(float64 \<Rightarrow> go_int) \<Rightarrow> float64 \<Rightarrow> go_int" where
  "go_int_of_float64 impl x =
     (let t = float64_trunc x
      in if - (2 ^ 63) \<le> t \<and> t < 2 ^ 63 then word_of_int t else impl x)"

text \<open>The conversion result of the amd64 implementation when the integer part does not
  fit: the smallest \<^verbatim>\<open>int\<close>.\<close>

definition amd64_overflow :: "float64 \<Rightarrow> go_int" where
  "amd64_overflow x = - (2 ^ 63)"

definition go_float64_of_int :: "go_int \<Rightarrow> float64" where
  "go_float64_of_int n = float64_of_int (sint n)"

text \<open>The constant \<^verbatim>\<open>1.8\<close> as a \<^verbatim>\<open>float64\<close>: \<open>8106479329266893 / 2 ^ 52\<close>.\<close>

definition f64_1_8 :: float64 where
  "f64_1_8 = Float64 8106479329266893 52"

text \<open>\<^verbatim>\<open>const tick = float64(60.0 / 127.0)\<close>: the exact quotient of the untyped
  constants, rounded once: \<open>8510739453298575 / 2 ^ 54\<close>.\<close>

definition tick :: float64 where
  "tick = Float64 8510739453298575 54"

text \<open>\<^verbatim>\<open>int(float64(n) * c)\<close> on the mathematical integers, before the result is
  stored in an \<^verbatim>\<open>int\<close>.\<close>

definition scale_trunc :: "float64 \<Rightarrow> int \<Rightarrow> int" where
  "scale_trunc c n = float64_trunc (float64_mul (float64_of_int n) c)"

definition go_scale :: "(float64 \<Rightarrow> go_int) \<Rightarrow> float64 \<Rightarrow> go_int \<Rightarrow> go_int" where
  "go_scale impl c n = go_int_of_float64 impl (float64_mul (go_float64_of_int n) c)"

text \<open>The integer part of \<open>1.8 * n\<close>, computed exactly.\<close>

definition trunc_1_8 :: "int \<Rightarrow> int" where
  "trunc_1_8 n = sgn n * (9 * \<bar>n\<bar> div 5)"

section \<open>The turn accumulator: the loop of \<^verbatim>\<open>NewVFOWheel\<close>\<close>

text \<open>The local variables of the goroutine started by \<^verbatim>\<open>NewVFOWheel\<close>.\<close>

record wheel_state =
  accumulatedTurns :: go_int
  turning :: bool
  frequency :: go_int

definition wheel_init :: wheel_state where
  "wheel_init = \<lparr>accumulatedTurns = 0, turning = False, frequency = 0\<rparr>"

text \<open>What one iteration does to the world outside the goroutine: a call of
  \<^verbatim>\<open>controller.SetVFOFrequency(trx, vfo, frequency)\<close> (with the wheel's own fixed
  \<^verbatim>\<open>trx\<close> and \<^verbatim>\<open>vfo\<close>) and a line in the log.\<close>

datatype wheel_effect = SetVFOFrequencyCall go_int | LogPrintf

text \<open>\<^verbatim>\<open>case turns, valid := <-result.turns\<close> with \<open>valid\<close> true.\<close>

definition wheel_turns :: "wheel_state \<Rightarrow> go_int \<Rightarrow> wheel_state" where
  "wheel_turns s turns =
     (let acc = accumulatedTurns s + turns
      in s\<lparr>accumulatedTurns := acc, turning := (0 <s frequency s)\<rparr>)"

text \<open>\<^verbatim>\<open>case f := <-result.frequency\<close>.\<close>

definition wheel_frequency :: "wheel_state \<Rightarrow> go_int \<Rightarrow> wheel_state" where
  "wheel_frequency s f = (if \<not> turning s then s\<lparr>frequency := f\<rparr> else s)"

text \<open>\<^verbatim>\<open>case <-ticker.C\<close>. The flag \<open>fails\<close> says whether the controller call, if one
  is made, returns an error.\<close>

definition wheel_tick ::
  "(float64 \<Rightarrow> go_int) \<Rightarrow> bool \<Rightarrow> wheel_state \<Rightarrow> wheel_state \<times> wheel_effect list" where
  "wheel_tick impl fails s =
     (if accumulatedTurns s = 0 then (s\<lparr>turning := False\<rparr>, [])
      else if accumulatedTurns s \<noteq> 0 \<and> frequency s \<noteq> 0 then
        (let f = frequency s + go_scale impl f64_1_8 (accumulatedTurns s)
         in (s\<lparr>frequency := f, accumulatedTurns := 0\<rparr>,
             SetVFOFrequencyCall f # (if fails then [LogPrintf] else [])))
      else (s, []))"

text \<open>The events the loop's \<^verbatim>\<open>select\<close> can take, and the loop over a sequence of them,
  collecting the effects in order.\<close>

datatype wheel_event = Turns go_int | Frequency go_int | Tick bool

fun wheel_step ::
  "(float64 \<Rightarrow> go_int) \<Rightarrow> wheel_state \<Rightarrow> wheel_event \<Rightarrow> wheel_state \<times> wheel_effect list" where
  "wheel_step impl s (Turns n) = (wheel_turns s n, [])"
| "wheel_step impl s (Frequency f) = (wheel_frequency s f, [])"
| "wheel_step impl s (Tick fails) = wheel_tick impl fails s"

fun wheel_run ::
  "(float64 \<Rightarrow> go_int) \<Rightarrow> wheel_state \<Rightarrow> wheel_event list \<Rightarrow> wheel_state \<times> wheel_effect list" where
  "wheel_run impl s [] = (s, [])"
| "wheel_run impl s (e # es) =
     (case wheel_step impl s e of (s', out) \<Rightarrow>
        (case wheel_run impl s' es of (s'', out') \<Rightarrow> (s'', out @ out')))"

fun is_frequency :: "wheel_event \<Rightarrow> bool" where
  "is_frequency (Frequency f) = True"
| "is_frequency e = False"

fun turns_of :: "wheel_event \<Rightarrow> go_int" where
  "turns_of (Turns n) = n"
| "turns_of e = 0"


text \<open>The specification's \<open>NewValue = BaselineValue + round(PendingDelta * SENSITIVITY)\<close>
  with the sensitivity 1.8, on the mathematical integers and reals.\<close>

definition spec_new_value :: "int \<Rightarrow> int \<Rightarrow> int" where
  "spec_new_value baseline delta = baseline + round (real_of_int delta * 1.8)"

section \<open>The value coalescer: the loop of \<^verbatim>\<open>Slider.start\<close>\<close>

text \<open>The local variables of the second goroutine of \<^verbatim>\<open>start\<close>.\<close>

record slider_state =
  activeValue :: go_int
  selectedValue :: go_int
  pending :: bool

definition slider_init :: slider_state where
  "slider_init = \<lparr>activeValue = 0, selectedValue = 0, pending = False\<rparr>"

text \<open>
  \<^verbatim>\<open>select { case tx <- selectedValue: pending = false; default: pending = true }\<close>.
  The channel \<^verbatim>\<open>tx\<close> has no buffer, so the send is taken exactly when the first
  goroutine of \<^verbatim>\<open>start\<close> is blocked in its \<^verbatim>\<open>select\<close> (the flag \<open>ready\<close>); that
  goroutine then calls \<^verbatim>\<open>s.set\<close> with the value received. The second component of the
  result is the value handed over, if any.
\<close>

definition slider_handoff :: "bool \<Rightarrow> slider_state \<Rightarrow> slider_state \<times> go_int option" where
  "slider_handoff ready s =
     (if ready then (s\<lparr>pending := False\<rparr>, Some (selectedValue s))
      else (s\<lparr>pending := True\<rparr>, None))"

text \<open>\<^verbatim>\<open>case value, valid := <-s.activeValue\<close> with \<open>valid\<close> true.\<close>

definition slider_active :: "slider_state \<Rightarrow> go_int \<Rightarrow> slider_state" where
  "slider_active s v =
     (let s1 = s\<lparr>activeValue := v\<rparr>
      in if \<not> pending s1 then s1\<lparr>selectedValue := activeValue s1\<rparr> else s1)"

text \<open>\<^verbatim>\<open>case value, valid := <-s.selectedValue\<close> with \<open>valid\<close> true.\<close>

definition slider_selected ::
  "bool \<Rightarrow> slider_state \<Rightarrow> go_int \<Rightarrow> slider_state \<times> go_int option" where
  "slider_selected ready s v =
     (let s1 = s\<lparr>selectedValue := v\<rparr>
      in if activeValue s1 = selectedValue s1 then (s1, None) else slider_handoff ready s1)"

text \<open>\<^verbatim>\<open>case <-ticker.C\<close>.\<close>

definition slider_tick :: "bool \<Rightarrow> slider_state \<Rightarrow> slider_state \<times> go_int option" where
  "slider_tick ready s =
     (if activeValue s = selectedValue s then (s\<lparr>pending := False\<rparr>, None)
      else slider_handoff ready s)"

text \<open>The events of the loop; those that may attempt a hand-over carry the readiness of
  the receiving goroutine at that moment. The loop over a sequence of events returns the
  values handed over, in order: the arguments of the calls of \<^verbatim>\<open>s.set\<close>.\<close>

datatype slider_event = Active go_int | Selected go_int bool | STick bool

fun slider_step :: "slider_state \<Rightarrow> slider_event \<Rightarrow> slider_state \<times> go_int option" where
  "slider_step s (Active v) = (slider_active s v, None)"
| "slider_step s (Selected v ready) = slider_selected ready s v"
| "slider_step s (STick ready) = slider_tick ready s"

fun slider_run :: "slider_state \<Rightarrow> slider_event list \<Rightarrow> slider_state \<times> go_int list" where
  "slider_run s [] = (s, [])"
| "slider_run s (e # es) =
     (case slider_step s e of (s', out) \<Rightarrow>
        (case slider_run s' es of (s'', outs) \<Rightarrow> (s'', (case out of None \<Rightarrow> [] | Some v \<Rightarrow> [v]) @ outs)))"

text \<open>The translation function that \<^verbatim>\<open>NewVolumeSlider\<close> passes to \<^verbatim>\<open>NewSlider\<close>:
  \<^verbatim>\<open>func(v int) int { return -60 + int(float64(v)*tick) }\<close>.\<close>

definition volume_translate :: "(float64 \<Rightarrow> go_int) \<Rightarrow> go_int \<Rightarrow> go_int" where
  "volume_translate impl v = - 60 + go_scale impl tick v"

section \<open>Channels\<close>

text \<open>
  A Go channel of capacity \<open>chan_cap\<close>: the values sent and not yet received, oldest
  first, and whether the channel has been closed. A channel operation either completes,
  or cannot proceed in the present state and blocks its goroutine, or panics.
\<close>

record 'a chan =
  chan_cap :: nat
  chan_buf :: "'a list"
  chan_closed :: bool

datatype 'a outcome = Returns 'a | Blocks | Panics

text \<open>\<^verbatim>\<open>make(chan T, n)\<close>.\<close>

definition make_chan :: "nat \<Rightarrow> 'a chan" where
  "make_chan n = \<lparr>chan_cap = n, chan_buf = [], chan_closed = False\<rparr>"

text \<open>\<^verbatim>\<open>c <- v\<close>: a send on a closed channel panics; a send on an open channel proceeds
  when the buffer has room, and blocks otherwise until a receiver takes a value.\<close>

definition chan_send :: "'a chan \<Rightarrow> 'a \<Rightarrow> 'a chan outcome" where
  "chan_send c v =
     (if chan_closed c then Panics
      else if length (chan_buf c) < chan_cap c then Returns (c\<lparr>chan_buf := chan_buf c @ [v]\<rparr>)
      else Blocks)"

text \<open>\<^verbatim>\<open>v, valid := <-c\<close>: the oldest buffered value (\<open>Some v\<close>, \<open>valid\<close> true); on an
  empty closed channel the zero value with \<open>valid\<close> false (\<open>None\<close>); on an empty open
  channel the receive blocks.\<close>

definition chan_recv :: "'a chan \<Rightarrow> ('a option \<times> 'a chan) outcome" where
  "chan_recv c =
     (case chan_buf c of
        x # xs \<Rightarrow> Returns (Some x, c\<lparr>chan_buf := xs\<rparr>)
      | [] \<Rightarrow> if chan_closed c then Returns (None, c) else Blocks)"

text \<open>\<^verbatim>\<open>close(c)\<close>: closing a closed channel panics.\<close>

definition chan_close :: "'a chan \<Rightarrow> 'a chan outcome" where
  "chan_close c = (if chan_closed c then Panics else Returns (c\<lparr>chan_closed := True\<rparr>))"

section \<open>The controls\<close>

record MidiKey =
  Channel :: "8 word"
  Key :: "8 word"

subsection \<open>\<^verbatim>\<open>RXChannelEnableButton\<close>\<close>

text \<open>The fields \<^verbatim>\<open>led\<close> and \<^verbatim>\<open>rxChannelEnabler\<close> are interfaces to the outside;
  a call of \<^verbatim>\<open>led.Set(key, on)\<close> is recorded as an effect. The type \<^verbatim>\<open>client.VFO\<close>
  of the TCI client library is the type parameter \<open>'vfo\<close>.\<close>

record 'vfo RXChannelEnableButton =
  b_key :: MidiKey
  b_trx :: go_int
  b_vfo :: 'vfo
  b_enabled :: bool

datatype led_effect = LedSet MidiKey bool

definition SetRXChannelEnable ::
  "'vfo RXChannelEnableButton \<Rightarrow> go_int \<Rightarrow> 'vfo \<Rightarrow> bool
     \<Rightarrow> 'vfo RXChannelEnableButton \<times> led_effect list" where
  "SetRXChannelEnable b trx vfo enabled =
     (if trx \<noteq> b_trx b \<or> vfo \<noteq> b_vfo b then (b, [])
      else (b\<lparr>b_enabled := enabled\<rparr>, [LedSet (b_key b) enabled]))"

subsection \<open>\<^verbatim>\<open>VFOWheel\<close>\<close>

record 'vfo VFOWheel =
  w_key :: MidiKey
  w_trx :: go_int
  w_vfo :: 'vfo
  w_frequency :: "go_int chan"
  w_turns :: "go_int chan"
  w_closed :: "unit chan"

text \<open>The struct that \<^verbatim>\<open>NewVFOWheel\<close> builds; the goroutine it starts is part of
  \<open>wheel_sys\<close> below.\<close>

definition NewVFOWheel :: "MidiKey \<Rightarrow> go_int \<Rightarrow> 'vfo \<Rightarrow> 'vfo VFOWheel" where
  "NewVFOWheel key trx vfo =
     \<lparr>w_key = key, w_trx = trx, w_vfo = vfo,
      w_frequency = make_chan 1000, w_turns = make_chan 1000, w_closed = make_chan 0\<rparr>"

definition Turned :: "'vfo VFOWheel \<Rightarrow> go_int \<Rightarrow> 'vfo VFOWheel outcome" where
  "Turned w turns = map_outcome (\<lambda>c. w\<lparr>w_turns := c\<rparr>) (chan_send (w_turns w) turns)"

definition SetVFOFrequency ::
  "'vfo VFOWheel \<Rightarrow> go_int \<Rightarrow> 'vfo \<Rightarrow> go_int \<Rightarrow> 'vfo VFOWheel outcome" where
  "SetVFOFrequency w trx vfo f =
     (if trx \<noteq> w_trx w \<or> vfo \<noteq> w_vfo w then Returns w
      else map_outcome (\<lambda>c. w\<lparr>w_frequency := c\<rparr>) (chan_send (w_frequency w) f))"

text \<open>
  \<^verbatim>\<open>Close\<close> can block in its middle, so it is given in two parts: from its entry, and
  from the receive \<^verbatim>\<open><-w.closed\<close> at which it waits. The result holds the program point
  at which the caller waits next, or \<open>None\<close> when \<^verbatim>\<open>Close\<close> has returned. Nothing is
  ever sent on \<^verbatim>\<open>closed\<close>, so a receive on it proceeds exactly when it has been closed.
\<close>

datatype close_pc = CloseEntry | CloseAwait

fun VFOWheel_Close ::
  "close_pc \<Rightarrow> 'vfo VFOWheel \<Rightarrow> ('vfo VFOWheel \<times> close_pc option) outcome" where
  "VFOWheel_Close CloseEntry w =
     (if chan_closed (w_closed w) then Returns (w, None)
      else map_outcome (\<lambda>c. (w\<lparr>w_turns := c\<rparr>, Some CloseAwait)) (chan_close (w_turns w)))"
| "VFOWheel_Close CloseAwait w =
     (if chan_closed (w_closed w) then Returns (w, None) else Blocks)"

text \<open>
  The goroutine of \<^verbatim>\<open>NewVFOWheel\<close> with its local variables and the effects it has had
  so far, together with the callers of \<^verbatim>\<open>Close\<close>: \<open>closers\<close> holds, for every call of
  \<^verbatim>\<open>Close\<close> that has not returned yet, the program point at which it waits, and
  \<open>closes_returned\<close> counts the calls of \<^verbatim>\<open>Close\<close> that have returned.
  When the goroutine returns, its deferred \<^verbatim>\<open>close(result.closed)\<close> runs; the two are one
  step here, so the goroutine has returned exactly when \<^verbatim>\<open>closed\<close> is closed.
\<close>

record 'vfo wheel_sys =
  wheel :: "'vfo VFOWheel"
  locals :: wheel_state
  effects :: "wheel_effect list"
  closers :: "close_pc list"
  closes_returned :: nat

definition wheel_sys_init :: "MidiKey \<Rightarrow> go_int \<Rightarrow> 'vfo \<Rightarrow> 'vfo wheel_sys" where
  "wheel_sys_init key trx vfo =
     \<lparr>wheel = NewVFOWheel key trx vfo, locals = wheel_init, effects = [],
      closers = [], closes_returned = 0\<rparr>"

text \<open>One iteration of the goroutine's loop, by the case its \<^verbatim>\<open>select\<close> takes; \<open>None\<close>
  when that case cannot be taken in this state or the goroutine has returned.\<close>

datatype wheel_case = CaseTurns | CaseFrequency | CaseTick bool

fun wheel_goroutine ::
  "(float64 \<Rightarrow> go_int) \<Rightarrow> wheel_case \<Rightarrow> 'vfo wheel_sys \<Rightarrow> 'vfo wheel_sys option" where
  "wheel_goroutine impl CaseTurns sys =
     (if chan_closed (w_closed (wheel sys)) then None
      else case chan_recv (w_turns (wheel sys)) of
        Returns (Some n, c) \<Rightarrow>
          Some (sys\<lparr>wheel := (wheel sys)\<lparr>w_turns := c\<rparr>, locals := wheel_turns (locals sys) n\<rparr>)
      | Returns (None, c) \<Rightarrow>
          Some (sys\<lparr>wheel := (wheel sys)\<lparr>w_closed := (w_closed (wheel sys))\<lparr>chan_closed := True\<rparr>\<rparr>\<rparr>)
      | _ \<Rightarrow> None)"
| "wheel_goroutine impl CaseFrequency sys =
     (if chan_closed (w_closed (wheel sys)) then None
      else case chan_recv (w_frequency (wheel sys)) of
        Returns (Some f, c) \<Rightarrow>
          Some (sys\<lparr>wheel := (wheel sys)\<lparr>w_frequency := c\<rparr>, locals := wheel_frequency (locals sys) f\<rparr>)
      | Returns (None, c) \<Rightarrow> Some (sys\<lparr>locals := wheel_frequency (locals sys) 0\<rparr>)
      | _ \<Rightarrow> None)"
| "wheel_goroutine impl (CaseTick fails) sys =
     (if chan_closed (w_closed (wheel sys)) then None
      else case wheel_tick impl fails (locals sys) of
        (l, out) \<Rightarrow> Some (sys\<lparr>locals := l, effects := effects sys @ out\<rparr>))"

text \<open>The steps of the whole: an iteration of the goroutine, a completed call of
  \<^verbatim>\<open>Turned\<close> or \<^verbatim>\<open>SetVFOFrequency\<close> by a producer, a new call of \<^verbatim>\<open>Close\<close>
  running from its entry, and the \<open>i\<close>-th waiting call of \<^verbatim>\<open>Close\<close> going on from
  where it waits. A step that blocks or panics is \<open>None\<close>.\<close>

datatype 'vfo wheel_action =
    Goroutine wheel_case
  | CallTurned go_int
  | CallSetVFOFrequency go_int 'vfo go_int
  | CallClose
  | ResumeClose nat

definition wheel_close_enter :: "'vfo wheel_sys \<Rightarrow> 'vfo wheel_sys option" where
  "wheel_close_enter sys =
     (case VFOWheel_Close CloseEntry (wheel sys) of
        Returns (w, None) \<Rightarrow>
          Some (sys\<lparr>wheel := w, closes_returned := Suc (closes_returned sys)\<rparr>)
      | Returns (w, Some pc) \<Rightarrow> Some (sys\<lparr>wheel := w, closers := closers sys @ [pc]\<rparr>)
      | _ \<Rightarrow> None)"

definition wheel_close_resume :: "nat \<Rightarrow> 'vfo wheel_sys \<Rightarrow> 'vfo wheel_sys option" where
  "wheel_close_resume i sys =
     (if i < length (closers sys) then
        (case VFOWheel_Close (closers sys ! i) (wheel sys) of
           Returns (w, None) \<Rightarrow>
             Some (sys\<lparr>wheel := w, closers := take i (closers sys) @ drop (Suc i) (closers sys),
                      closes_returned := Suc (closes_returned sys)\<rparr>)
         | Returns (w, Some pc) \<Rightarrow> Some (sys\<lparr>wheel := w, closers := (closers sys)[i := pc]\<rparr>)
         | _ \<Rightarrow> None)
      else None)"

fun wheel_sys_step ::
  "(float64 \<Rightarrow> go_int) \<Rightarrow> 'vfo wheel_action \<Rightarrow> 'vfo wheel_sys \<Rightarrow> 'vfo wheel_sys option" where
  "wheel_sys_step impl (Goroutine c) sys = wheel_goroutine impl c sys"
| "wheel_sys_step impl (CallTurned n) sys =
     (case Turned (wheel sys) n of Returns w \<Rightarrow> Some (sys\<lparr>wheel := w\<rparr>) | _ \<Rightarrow> None)"
| "wheel_sys_step impl (CallSetVFOFrequency trx vfo f) sys =
     (case SetVFOFrequency (wheel sys) trx vfo f of
        Returns w \<Rightarrow> Some (sys\<lparr>wheel := w\<rparr>) | _ \<Rightarrow> None)"
| "wheel_sys_step impl CallClose sys = wheel_close_enter sys"
| "wheel_sys_step impl (ResumeClose i) sys = wheel_close_resume i sys"

fun wheel_sys_run ::
  "(float64 \<Rightarrow> go_int) \<Rightarrow> 'vfo wheel_action list \<Rightarrow> 'vfo wheel_sys \<Rightarrow> 'vfo wheel_sys option" where
  "wheel_sys_run impl [] sys = Some sys"
| "wheel_sys_run impl (a # as) sys =
     (case wheel_sys_step impl a sys of None \<Rightarrow> None | Some sys' \<Rightarrow> wheel_sys_run impl as sys')"

subsection \<open>\<^verbatim>\<open>Slider\<close>\<close>

text \<open>The field \<^verbatim>\<open>set\<close> is a callback to the outside; its calls are recorded in
  \<open>set_calls\<close> below.\<close>

record Slider =
  s_translate :: "go_int \<Rightarrow> go_int"
  s_activeValue :: "go_int chan"
  s_selectedValue :: "go_int chan"
  s_closed :: "unit chan"

definition NewSlider :: "(go_int \<Rightarrow> go_int) \<Rightarrow> Slider" where
  "NewSlider translate =
     \<lparr>s_translate = translate, s_activeValue = make_chan 1000,
      s_selectedValue = make_chan 1000, s_closed = make_chan 0\<rparr>"

definition Changed :: "Slider \<Rightarrow> go_int \<Rightarrow> Slider outcome" where
  "Changed s v =
     map_outcome (\<lambda>c. s\<lparr>s_selectedValue := c\<rparr>) (chan_send (s_selectedValue s) (s_translate s v))"

text \<open>\<^verbatim>\<open>VolumeSlider.SetVolume\<close>.\<close>

definition SetVolume :: "Slider \<Rightarrow> go_int \<Rightarrow> Slider outcome" where
  "SetVolume s volume =
     map_outcome (\<lambda>c. s\<lparr>s_activeValue := c\<rparr>) (chan_send (s_activeValue s) volume)"

text \<open>\<^verbatim>\<open>Slider.Close\<close>, in three parts: from its entry up to and including
  \<^verbatim>\<open>close(s.activeValue)\<close>, then \<^verbatim>\<open>close(s.selectedValue)\<close>, then the receive
  \<^verbatim>\<open><-s.closed\<close>.\<close>

datatype slider_close_pc = SCloseEntry | SCloseSelected | SCloseAwait

fun Slider_Close :: "slider_close_pc \<Rightarrow> Slider \<Rightarrow> (Slider \<times> slider_close_pc option) outcome" where
  "Slider_Close SCloseEntry s =
     (if chan_closed (s_closed s) then Returns (s, None)
      else map_outcome (\<lambda>c. (s\<lparr>s_activeValue := c\<rparr>, Some SCloseSelected))
             (chan_close (s_activeValue s)))"
| "Slider_Close SCloseSelected s =
     map_outcome (\<lambda>c. (s\<lparr>s_selectedValue := c\<rparr>, Some SCloseAwait)) (chan_close (s_selectedValue s))"
| "Slider_Close SCloseAwait s =
     (if chan_closed (s_closed s) then Returns (s, None) else Blocks)"

text \<open>
  The two goroutines of \<^verbatim>\<open>start\<close> and the callers of \<^verbatim>\<open>Close\<close>. The first goroutine
  (the executor) is either blocked in its \<^verbatim>\<open>select\<close>, or running outside it (it has just
  been started, or it is inside \<^verbatim>\<open>s.set\<close>), or it has returned. The second goroutine is
  the loop; as for the wheel, its return and the deferred \<^verbatim>\<open>close(s.closed)\<close> are one
  step.
\<close>

datatype executor = ExecRunning | ExecSelect | ExecReturned

record slider_sys =
  slider :: Slider
  slocals :: slider_state
  exec :: executor
  set_calls :: "go_int list"
  sclosers :: "slider_close_pc list"
  scloses_returned :: nat

definition slider_sys_init :: "(go_int \<Rightarrow> go_int) \<Rightarrow> slider_sys" where
  "slider_sys_init translate =
     \<lparr>slider = NewSlider translate, slocals = slider_init, exec = ExecRunning, set_calls = [],
      sclosers = [], scloses_returned = 0\<rparr>"

text \<open>The loop has taken a case that may hand a value to the executor: the new local
  variables, and, when a value was handed over, the executor receiving it and calling
  \<^verbatim>\<open>s.set\<close> with it.\<close>

definition slider_deliver :: "slider_sys \<Rightarrow> slider_state \<times> go_int option \<Rightarrow> slider_sys" where
  "slider_deliver sys r =
     (case r of
        (l, None) \<Rightarrow> sys\<lparr>slocals := l\<rparr>
      | (l, Some v) \<Rightarrow> sys\<lparr>slocals := l, exec := ExecRunning, set_calls := set_calls sys @ [v]\<rparr>)"

definition slider_return :: "slider_sys \<Rightarrow> slider_sys" where
  "slider_return sys =
     sys\<lparr>slider := (slider sys)\<lparr>s_closed := (s_closed (slider sys))\<lparr>chan_closed := True\<rparr>\<rparr>\<rparr>"

datatype slider_case = CaseActive | CaseSelected | CaseSTick

fun slider_goroutine :: "slider_case \<Rightarrow> slider_sys \<Rightarrow> slider_sys option" where
  "slider_goroutine CaseActive sys =
     (if chan_closed (s_closed (slider sys)) then None
      else case chan_recv (s_activeValue (slider sys)) of
        Returns (Some v, c) \<Rightarrow>
          Some (sys\<lparr>slider := (slider sys)\<lparr>s_activeValue := c\<rparr>,
                   slocals := slider_active (slocals sys) v\<rparr>)
      | Returns (None, c) \<Rightarrow> Some (slider_return sys)
      | _ \<Rightarrow> None)"
| "slider_goroutine CaseSelected sys =
     (if chan_closed (s_closed (slider sys)) then None
      else case chan_recv (s_selectedValue (slider sys)) of
        Returns (Some v, c) \<Rightarrow>
          Some (slider_deliver (sys\<lparr>slider := (slider sys)\<lparr>s_selectedValue := c\<rparr>\<rparr>)
                  (slider_selected (exec sys = ExecSelect) (slocals sys) v))
      | Returns (None, c) \<Rightarrow> Some (slider_return sys)
      | _ \<Rightarrow> None)"
| "slider_goroutine CaseSTick sys =
     (if chan_closed (s_closed (slider sys)) then None
      else Some (slider_deliver sys (slider_tick (exec sys = ExecSelect) (slocals sys))))"

text \<open>The executor reaches its \<^verbatim>\<open>select\<close> (at its start, or when \<^verbatim>\<open>s.set\<close> has
  returned), or takes the case \<^verbatim>\<open><-s.closed\<close> and returns.\<close>

datatype executor_case = ExecLoops | ExecClosed

fun executor_step :: "executor_case \<Rightarrow> slider_sys \<Rightarrow> slider_sys option" where
  "executor_step ExecLoops sys =
     (if exec sys = ExecRunning then Some (sys\<lparr>exec := ExecSelect\<rparr>) else None)"
| "executor_step ExecClosed sys =
     (if exec sys = ExecSelect \<and> chan_closed (s_closed (slider sys))
      then Some (sys\<lparr>exec := ExecReturned\<rparr>) else None)"

datatype slider_action =
    SGoroutine slider_case
  | Executor executor_case
  | CallChanged go_int
  | CallSetVolume go_int
  | SCallClose
  | SResumeClose nat

definition slider_close_enter :: "slider_sys \<Rightarrow> slider_sys option" where
  "slider_close_enter sys =
     (case Slider_Close SCloseEntry (slider sys) of
        Returns (s, None) \<Rightarrow>
          Some (sys\<lparr>slider := s, scloses_returned := Suc (scloses_returned sys)\<rparr>)
      | Returns (s, Some pc) \<Rightarrow> Some (sys\<lparr>slider := s, sclosers := sclosers sys @ [pc]\<rparr>)
      | _ \<Rightarrow> None)"

definition slider_close_resume :: "nat \<Rightarrow> slider_sys \<Rightarrow> slider_sys option" where
  "slider_close_resume i sys =
     (if i < length (sclosers sys) then
        (case Slider_Close (sclosers sys ! i) (slider sys) of
           Returns (s, None) \<Rightarrow>
             Some (sys\<lparr>slider := s, sclosers := take i (sclosers sys) @ drop (Suc i) (sclosers sys),
                      scloses_returned := Suc (scloses_returned sys)\<rparr>)
         | Returns (s, Some pc) \<Rightarrow> Some (sys\<lparr>slider := s, sclosers := (sclosers sys)[i := pc]\<rparr>)
         | _ \<Rightarrow> None)
      else None)"

fun slider_sys_step :: "slider_action \<Rightarrow> slider_sys \<Rightarrow> slider_sys option" where
  "slider_sys_step (SGoroutine c) sys = slider_goroutine c sys"
| "slider_sys_step (Executor c) sys = executor_step c sys"
| "slider_sys_step (CallChanged v) sys =
     (case Changed (slider sys) v of Returns s \<Rightarrow> Some (sys\<lparr>slider := s\<rparr>) | _ \<Rightarrow> None)"
| "slider_sys_step (CallSetVolume v) sys =
     (case SetVolume (slider sys) v of Returns s \<Rightarrow> Some (sys\<lparr>slider := s\<rparr>) | _ \<Rightarrow> None)"
| "slider_sys_step SCallClose sys = slider_close_enter sys"
| "slider_sys_step (SResumeClose i) sys = slider_close_resume i sys"

fun slider_sys_run :: "slider_action list \<Rightarrow> slider_sys \<Rightarrow> slider_sys option" where
  "slider_sys_run [] sys = Some sys"
| "slider_sys_run (a # as) sys =
     (case slider_sys_step a sys of None \<Rightarrow> None | Some sys' \<Rightarrow> slider_sys_run as sys')"

subsection \<open>Invariants of the two systems\<close>

text \<open>Once a call of \<^verbatim>\<open>Close\<close> has returned, the goroutine has returned; every step
  keeps this.\<close>

definition wheel_closed_inv :: "'vfo wheel_sys \<Rightarrow> bool" where
  "wheel_closed_inv sys \<longleftrightarrow>
     (0 < closes_returned sys \<longrightarrow> chan_closed (w_closed (wheel sys)))"

definition slider_closed_inv :: "slider_sys \<Rightarrow> bool" where
  "slider_closed_inv sys \<longleftrightarrow>
     (0 < scloses_returned sys \<longrightarrow> chan_closed (s_closed (slider sys)))"

section \<open>Properties of the float64 model\<close>

text \<open>The two constants are normalised (53 significant bits) and lie within half a unit
  in the last place of \<open>9 / 5\<close> and of \<open>60 / 127\<close>: they are the nearest \<^verbatim>\<open>float64\<close>.\<close>

lemma f64_1_8_nearest:
  "2 ^ 52 \<le> numer f64_1_8 \<and> numer f64_1_8 < 2 ^ 53
   \<and> 2 * \<bar>5 * numer f64_1_8 - 9 * 2 ^ scale f64_1_8\<bar> \<le> 5"
  by (simp add: f64_1_8_def)

lemma tick_nearest:
  "2 ^ 52 \<le> numer tick \<and> numer tick < 2 ^ 53
   \<and> 2 * \<bar>127 * numer tick - 60 * 2 ^ scale tick\<bar> \<le> 127"
  by (simp add: tick_def)

lemma bit_length_bounds: "0 < n \<Longrightarrow> 2 ^ (bit_length n - 1) \<le> n \<and> n < 2 ^ bit_length n"
proof (induction n rule: bit_length.induct)
  case (1 n)
  show ?case
  proof (cases "n div 2 = 0")
    case True
    with "1.prems" have "n = 1" by (simp add: div_eq_0_iff) 
    then show ?thesis by (simp add: bit_length.simps)
  next
    case False
    then have pos: "0 < n div 2" by simp
    from "1.prems" have n0: "n \<noteq> 0" by simp
    from "1.IH" [OF n0 pos] have lo: "2 ^ (bit_length (n div 2) - 1) \<le> n div 2"
      and hi: "n div 2 < 2 ^ bit_length (n div 2)" by simp_all
    have bl: "bit_length n = Suc (bit_length (n div 2))"
      using n0 by (subst bit_length.simps) simp
    have "0 < bit_length (n div 2)"
      using pos by (subst bit_length.simps) simp
    then obtain k where k: "bit_length (n div 2) = Suc k" by (cases "bit_length (n div 2)") auto
    from lo k have "2 * 2 ^ k \<le> 2 * (n div 2)" by simp
    also have "\<dots> \<le> n" by simp
    finally have a: "2 ^ (bit_length n - 1) \<le> n" using bl k by simp
    from hi have "n div 2 + 1 \<le> 2 ^ bit_length (n div 2)" by simp
    then have "2 * (n div 2) + 2 \<le> 2 * 2 ^ bit_length (n div 2)" by simp
    moreover have "n \<le> 2 * (n div 2) + 1" by presburger
    ultimately have b: "n < 2 ^ bit_length n" using bl by simp
    from a b show ?thesis by simp
  qed
qed

lemma bit_length_le: "n < 2 ^ k \<Longrightarrow> bit_length n \<le> k"
proof (cases "n = 0")
  case True
  then show ?thesis by (simp add: bit_length.simps)
next
  case False
  assume "n < 2 ^ k"
  from False have "2 ^ (bit_length n - 1) \<le> n" using bit_length_bounds [of n] by simp
  from this and \<open>n < 2 ^ k\<close> have "(2::nat) ^ (bit_length n - 1) < 2 ^ k" by (rule le_less_trans)
  then have "bit_length n - 1 < k" by (rule power_less_imp_less_exp [rotated]) simp
  then show ?thesis by simp
qed

lemma rne53_exact: "n < 2 ^ 53 \<Longrightarrow> rne53 n = n"
  using bit_length_le [of n 53] by (simp add: rne53_def)

lemma rne53_lower: "(n div 2 ^ (bit_length n - 53)) * 2 ^ (bit_length n - 53) \<le> rne53 n"
  by (simp add: rne53_def Let_def)

lemma rne53_upper: "2 * rne53 n \<le> 2 * n + 2 ^ (bit_length n - 53)"
proof -
  define P :: nat where "P = 2 ^ (bit_length n - 53)"
  define q where "q = n div P"
  define r where "r = n mod P"
  have n: "n = q * P + r" by (simp add: q_def r_def)
  show ?thesis
  proof (cases "2 * r < P \<or> (2 * r = P \<and> even q)")
    case True
    then have "rne53 n = q * P" by (simp add: rne53_def Let_def P_def q_def r_def)
    then have "2 * rne53 n \<le> 2 * n + P" using n by simp
    then show ?thesis by (simp only: P_def)
  next
    case False
    then have "rne53 n = (q + 1) * P" by (simp add: rne53_def Let_def P_def q_def r_def)
    moreover from False have "P \<le> 2 * r" by auto
    ultimately have "2 * rne53 n \<le> 2 * n + P" using n by (simp add: algebra_simps)
    then show ?thesis by (simp only: P_def)
  qed
qed


lemma rne53_mul_1_8:
  assumes "0 < n" and "n \<le> 2 ^ 50"
  shows "rne53 (n * 8106479329266893) div 2 ^ 52 = 9 * n div 5"
proof -
  define E :: nat where "E = 2 ^ 52"
  define F :: nat where "F = 2 ^ 50"
  define N where "N = n * 8106479329266893"
  define s where "s = bit_length N - 53"
  define q where "q = 9 * n div 5"
  have EF: "E = 4 * F" by (simp add: E_def F_def)
  have nF: "n \<le> F" using assms by (simp add: F_def)
  have C: "5 * N = 9 * n * E + n" by (simp add: N_def E_def)
  have "N \<le> 2 ^ 50 * 8106479329266893" using assms by (simp add: N_def)
  also have "\<dots> < 2 ^ 103" by simp
  finally have "bit_length N \<le> 103" by (rule bit_length_le)
  then have s: "s \<le> 50" by (simp add: s_def)
  then have "(2::nat) ^ s \<le> 2 ^ 50" by (rule power_increasing) simp
  then have PF: "2 ^ s \<le> F" by (simp only: F_def)
  have E: "E = 2 ^ (52 - s) * 2 ^ s" using s by (simp add: E_def flip: power_add)
  have q1: "5 * q \<le> 9 * n" and q2: "9 * n + 1 \<le> 5 * q + 5" by (simp_all add: q_def)
  from q1 have "5 * q * E \<le> 9 * n * E" by (rule mult_le_mono1)
  then have "5 * (q * E) \<le> 9 * n * E" by (simp only: mult.assoc)
  with C have qN: "q * E \<le> N" by linarith
  then have "q * 2 ^ (52 - s) * 2 ^ s \<le> N" using E by (simp add: mult.assoc)
  then have "q * 2 ^ (52 - s) \<le> N div 2 ^ s" by (simp add: less_eq_div_iff_mult_less_eq)
  then have "q * 2 ^ (52 - s) * 2 ^ s \<le> (N div 2 ^ s) * 2 ^ s" by (rule mult_le_mono1)
  also have "\<dots> \<le> rne53 N" unfolding s_def by (rule rne53_lower)
  finally have "q * 2 ^ (52 - s) * 2 ^ s \<le> rne53 N" .
  moreover have "E * q = q * 2 ^ (52 - s) * 2 ^ s" by (subst E) (simp add: ac_simps)
  ultimately have lo: "E * q \<le> rne53 N" by (simp only:)
  have up: "2 * rne53 N \<le> 2 * N + 2 ^ s" unfolding s_def by (rule rne53_upper)
  from q2 have "(9 * n + 1) * E \<le> (5 * q + 5) * E" by (rule mult_le_mono1)
  then have "9 * n * E + E \<le> 5 * (q * E) + 5 * E" by (simp add: algebra_simps)
  moreover have "0 < F" by (simp add: F_def)
  ultimately have "rne53 N < q * E + E" using C up PF nF EF by linarith
  then have hi: "rne53 N < E * Suc q" by (simp add: mult.commute)
  from lo hi have "rne53 N div E = q" by (rule div_nat_eqI)
  then show ?thesis by (simp add: N_def E_def q_def)
qed

lemma scale_trunc_1_8:
  assumes "\<bar>n\<bar> \<le> 2 ^ 50"
  shows "scale_trunc f64_1_8 n = sgn n * (9 * \<bar>n\<bar> div 5)"
proof (cases "n = 0")
  case True
  then show ?thesis
    by (simp add: scale_trunc_def f64_1_8_def float64_of_int_def round_float64_def rne53_exact)
next
  case False
  define a where "a = nat \<bar>n\<bar>"
  have a: "0 < a" "a \<le> 2 ^ 50" "\<bar>n\<bar> = int a"
    using False assms by (simp_all add: a_def nat_le_iff)
  then have "a < 2 ^ 53" by simp
  then have ex: "rne53 a = a" by (rule rne53_exact)
  have m: "rne53 (a * 8106479329266893) div 2 ^ 52 = 9 * a div 5"
    using a(1,2) by (rule rne53_mul_1_8)
  from a(1) have "1 \<le> 9 * a div 5" by presburger
  with m have pos: "0 < rne53 (a * 8106479329266893)"
    by (cases "rne53 (a * 8106479329266893) = 0") simp_all
  have abs_prod: "nat \<bar>n * 8106479329266893\<bar> = a * 8106479329266893"
    by (simp add: a_def abs_mult nat_mult_distrib)
  have sgn_prod: "sgn (n * 8106479329266893) = sgn n"
    by (simp add: sgn_mult)
  have n_eq: "sgn n * int a = n"
    using a(3) by (metis mult_sgn_abs)
  have "float64_mul (float64_of_int n) f64_1_8
          = Float64 (sgn n * int (rne53 (a * 8106479329266893))) 52"
    by (simp add: float64_of_int_def round_float64_def f64_1_8_def ex n_eq abs_prod sgn_prod
          flip: a_def)
  then have "scale_trunc f64_1_8 n
          = sgn (sgn n * int (rne53 (a * 8106479329266893)))
            * (\<bar>sgn n * int (rne53 (a * 8106479329266893))\<bar> div 2 ^ 52)"
    by (simp add: scale_trunc_def)
  also have "\<dots> = sgn n * (int (rne53 (a * 8106479329266893)) div 2 ^ 52)"
    using pos False by (simp add: sgn_mult abs_mult)
  also have "int (rne53 (a * 8106479329266893)) div 2 ^ 52
          = int (rne53 (a * 8106479329266893) div 2 ^ 52)"
    by (simp add: zdiv_int)
  also have "\<dots> = 9 * \<bar>n\<bar> div 5"
    using m a(3) by (simp add: zdiv_int)
  finally show ?thesis .
qed

lemma go_scale_1_8:
  assumes "\<bar>sint n\<bar> \<le> 2 ^ 50"
  shows "go_scale impl f64_1_8 n = word_of_int (trunc_1_8 (sint n))"
proof -
  have t: "float64_trunc (float64_mul (go_float64_of_int n) f64_1_8) = trunc_1_8 (sint n)"
    using scale_trunc_1_8 [OF assms] by (simp add: scale_trunc_def go_float64_of_int_def trunc_1_8_def)
  have "9 * \<bar>sint n\<bar> div 5 \<le> 9 * 2 ^ 50 div 5"
    using assms by (intro zdiv_mono1) simp_all
  moreover have "0 \<le> 9 * \<bar>sint n\<bar> div 5" by simp
  moreover have "\<bar>trunc_1_8 (sint n)\<bar> = 9 * \<bar>sint n\<bar> div 5 \<or> trunc_1_8 (sint n) = 0"
    by (cases "sint n = 0") (simp_all add: trunc_1_8_def abs_mult)
  ultimately have "- (2 ^ 63) \<le> trunc_1_8 (sint n) \<and> trunc_1_8 (sint n) < 2 ^ 63"
    by auto
  then show ?thesis
    by (simp add: go_scale_def go_int_of_float64_def t)
qed

lemma spec_new_value_eq: "spec_new_value b d = b + (18 * d + 5) div 10"
proof -
  have "real_of_int d * 1.8 + 1 / 2 = real_of_int (18 * d + 5) / real_of_int 10"
    by simp
  then have "round (real_of_int d * 1.8) = (18 * d + 5) div 10"
    unfolding round_def by (simp only: floor_divide_of_int_eq)
  then show ?thesis by (simp add: spec_new_value_def)
qed

lemma no_multiple_of_127: "0 < n \<Longrightarrow> n < 127 \<Longrightarrow> \<not> 127 dvd 60 * (n::nat)"
proof
  assume n: "0 < n" "n < 127" and d: "127 dvd 60 * n"
  from d have "127 dvd 36 * (60 * n)" by (rule dvd_mult)
  moreover have "36 * (60 * n) = 127 * (17 * n) + n" by simp
  ultimately have "127 dvd 127 * (17 * n) + n" by simp
  then have "127 dvd n" by (simp only: dvd_add_right_iff [OF dvd_triv_left])
  with n show False by (auto dest: dvd_imp_le)
qed

lemma rne53_mul_tick:
  assumes "0 < n" and "n < 127"
  shows "rne53 (n * 8510739453298575) div 2 ^ 54 = 60 * n div 127"
proof -
  define E :: nat where "E = 2 ^ 54"
  define N where "N = n * 8510739453298575"
  define s where "s = bit_length N - 53"
  define q where "q = 60 * n div 127"
  have Ebig: "16256 < E" by (simp add: E_def)
  have C: "127 * N + 15 * n = 60 * n * E" by (simp add: N_def E_def)
  have "N < 127 * 8510739453298575" using assms by (simp add: N_def)
  also have "\<dots> < 2 ^ 60" by simp
  finally have "bit_length N \<le> 60" by (rule bit_length_le)
  then have s: "s \<le> 7" by (simp add: s_def)
  then have "(2::nat) ^ s \<le> 2 ^ 7" by (rule power_increasing) simp
  then have P: "2 ^ s \<le> (128::nat)" by simp
  have E: "E = 2 ^ (54 - s) * 2 ^ s" using s by (simp add: E_def flip: power_add)
  have "\<not> 127 dvd 60 * n" using assms by (rule no_multiple_of_127)
  then have nd: "(60 * n) mod 127 \<noteq> 0" by (simp add: dvd_eq_mod_eq_0)
  have qr: "60 * n = 127 * q + (60 * n) mod 127" by (simp add: q_def)
  with nd have q1: "127 * q + 1 \<le> 60 * n" by linarith
  have "(60 * n) mod 127 < 127" by simp
  with qr have q2: "60 * n \<le> 127 * q + 126" by linarith
  from q1 have "(127 * q + 1) * E \<le> 60 * n * E" by (rule mult_le_mono1)
  then have "127 * (q * E) + E \<le> 60 * n * E" by (simp add: algebra_simps)
  with C Ebig assms have qN: "q * E \<le> N" by linarith
  then have "q * 2 ^ (54 - s) * 2 ^ s \<le> N" using E by (simp add: mult.assoc)
  then have "q * 2 ^ (54 - s) \<le> N div 2 ^ s" by (simp add: less_eq_div_iff_mult_less_eq)
  then have "q * 2 ^ (54 - s) * 2 ^ s \<le> (N div 2 ^ s) * 2 ^ s" by (rule mult_le_mono1)
  also have "\<dots> \<le> rne53 N" unfolding s_def by (rule rne53_lower)
  finally have "q * 2 ^ (54 - s) * 2 ^ s \<le> rne53 N" .
  moreover have "E * q = q * 2 ^ (54 - s) * 2 ^ s" by (subst E) (simp add: ac_simps)
  ultimately have lo: "E * q \<le> rne53 N" by (simp only:)
  have up: "2 * rne53 N \<le> 2 * N + 2 ^ s" unfolding s_def by (rule rne53_upper)
  from q2 have "60 * n * E \<le> (127 * q + 126) * E" by (rule mult_le_mono1)
  then have "60 * n * E \<le> 127 * (q * E) + 126 * E" by (simp add: algebra_simps)
  with C up P Ebig have "rne53 N < q * E + E" by linarith
  then have hi: "rne53 N < E * Suc q" by (simp add: mult.commute)
  from lo hi have "rne53 N div E = q" by (rule div_nat_eqI)
  then show ?thesis by (simp add: N_def E_def q_def)
qed

lemma rne53_0: "rne53 0 = 0"
  by (simp add: rne53_exact)

lemma round_float64_nat: "round_float64 (int n) k = Float64 (int (rne53 n)) k"
  by (cases "n = 0") (simp_all add: round_float64_def rne53_0)

lemma scale_trunc_nonneg:
  assumes "a < 2 ^ 53"
  shows "scale_trunc (Float64 (int c) k) (int a) = int (rne53 (a * c) div 2 ^ k)"
proof -
  from assms have ex: "rne53 a = a" by (rule rne53_exact)
  have conv: "float64_of_int (int a) = Float64 (int a) 0"
    by (simp add: float64_of_int_def round_float64_nat ex)
  have "float64_mul (Float64 (int a) 0) (Float64 (int c) k) = round_float64 (int (a * c)) k"
    by simp
  then have prod: "float64_mul (Float64 (int a) 0) (Float64 (int c) k)
      = Float64 (int (rne53 (a * c))) k"
    by (simp only: round_float64_nat)
  have "scale_trunc (Float64 (int c) k) (int a)
      = float64_trunc (Float64 (int (rne53 (a * c))) k)"
    by (simp only: scale_trunc_def conv prod)
  also have "\<dots> = int (rne53 (a * c)) div 2 ^ k"
    by (cases "rne53 (a * c) = 0") simp_all
  also have "\<dots> = int (rne53 (a * c) div 2 ^ k)"
    by (simp add: zdiv_int)
  finally show ?thesis .
qed

lemma scale_trunc_tick:
  assumes "0 \<le> n" and "n \<le> 127"
  shows "scale_trunc tick n = 60 * n div 127"
proof -
  define a where "a = nat n"
  have n: "n = int a" and a: "a \<le> 127" using assms by (simp_all add: a_def)
  then have "a < 2 ^ 53" by simp
  then have st: "scale_trunc tick n = int (rne53 (a * 8510739453298575) div 2 ^ 54)"
    unfolding tick_def n using scale_trunc_nonneg [of a 8510739453298575 54] by simp
  have "rne53 (a * 8510739453298575) div 2 ^ 54 = 60 * a div 127"
  proof (cases "a = 0 \<or> a = 127")
    case True
    then show ?thesis
    proof
      assume "a = 0"
      then show ?thesis by (simp add: rne53_0)
    next
      assume "a = 127"
      then show ?thesis by (simp add: rne53_def bit_length.simps Let_def)
    qed
  next
    case False
    with a have "0 < a" "a < 127" by simp_all
    then show ?thesis by (rule rne53_mul_tick)
  qed
  with st have "scale_trunc tick n = int (60 * a div 127)" by (simp only:)
  also have "\<dots> = 60 * n div 127" by (simp add: n zdiv_int)
  finally show ?thesis .
qed

lemma sint_word_of_int_64:
  "- (2 ^ 63) \<le> x \<Longrightarrow> x < 2 ^ 63 \<Longrightarrow> sint (word_of_int x :: 64 word) = x"
  by (simp add: sint_sbintrunc' signed_take_bit_int_eq_self)

lemma sint_volume_translate:
  assumes "0 \<le> sint v" and "sint v \<le> 127"
  shows "sint (volume_translate impl v) = - 60 + 60 * sint v div 127"
proof -
  have st: "float64_trunc (float64_mul (go_float64_of_int v) tick) = 60 * sint v div 127"
    using scale_trunc_tick [OF assms] by (simp add: scale_trunc_def go_float64_of_int_def)
  have lo: "0 \<le> 60 * sint v div 127" using assms by simp
  have "60 * sint v div 127 \<le> 60 * 127 div 127" using assms by (intro zdiv_mono1) simp_all
  then have hi: "60 * sint v div 127 \<le> 60" by simp
  from lo hi have "go_scale impl tick v = word_of_int (60 * sint v div 127)"
    by (simp add: go_scale_def go_int_of_float64_def st)
  then have "volume_translate impl v = word_of_int (- 60 + 60 * sint v div 127)"
    by (simp add: volume_translate_def)
  moreover from lo hi have "sint (word_of_int (- 60 + 60 * sint v div 127) :: 64 word)
      = - 60 + 60 * sint v div 127"
    by (intro sint_word_of_int_64) simp_all
  ultimately show ?thesis by simp
qed

lemma volume_translate_0: "volume_translate impl 0 = - 60"
proof -
  have "sint (volume_translate impl 0) = - 60"
    using sint_volume_translate [of 0 impl] by simp
  then show ?thesis by (intro signed_word_eqI) simp
qed

lemma volume_translate_64: "volume_translate impl 64 = - 30"
proof -
  have "sint (volume_translate impl 64) = - 30"
    using sint_volume_translate [of 64 impl] by simp
  then show ?thesis by (intro signed_word_eqI) simp
qed

section \<open>The claims about the turn accumulator\<close>

text \<open>
  Counterexample to claim C2 as stated. With one pending turn and the baseline 7000000
  the tick dispatches 7000001: the conversion \<^verbatim>\<open>int(float64(1)*1.8)\<close> discards the
  fraction of 1.8. The claim's \<open>BaselineValue + round(PendingDelta * 1.8)\<close> is 7000002.
\<close>

theorem wheel_tick_round_counterexample:
  "wheel_tick amd64_overflow False \<lparr>accumulatedTurns = 1, turning = True, frequency = 7000000\<rparr>
     = (\<lparr>accumulatedTurns = 0, turning = True, frequency = 7000001\<rparr>, [SetVFOFrequencyCall 7000001])
   \<and> spec_new_value 7000000 1 = 7000002"
  by (simp add: wheel_tick_def go_scale_1_8 trunc_1_8_def spec_new_value_eq)

text \<open>
  Claim C2, amended. On every tick with \<open>accumulatedTurns\<close> and \<open>frequency\<close> both
  nonzero, the loop calls the controller with \<open>frequency\<close> plus
  \<^verbatim>\<open>int(float64(accumulatedTurns)*1.8)\<close>, \<open>frequency\<close> becomes that value and
  \<open>accumulatedTurns\<close> becomes 0, whether or not the controller call fails (a failure only
  adds a log line). The conversion truncates towards zero: for \<open>accumulatedTurns\<close> of
  magnitude at most \<open>2 ^ 50\<close> the increment is exactly the integer part of
  \<open>1.8 * accumulatedTurns\<close>. The burst \<open>[+3, +2, -1]\<close> followed by a tick, from no
  pending turns and a nonzero baseline, dispatches the specification's
  \<open>BaselineValue + round(4 * 1.8)\<close>, which is the baseline plus 7.
\<close>

theorem wheel_tick_dispatch:
  "(accumulatedTurns s \<noteq> 0 \<and> frequency s \<noteq> 0 \<longrightarrow>
      wheel_tick impl fails s =
        (s\<lparr>frequency := frequency s + go_scale impl f64_1_8 (accumulatedTurns s),
           accumulatedTurns := 0\<rparr>,
         SetVFOFrequencyCall (frequency s + go_scale impl f64_1_8 (accumulatedTurns s))
           # (if fails then [LogPrintf] else [])))
   \<and> (\<bar>sint n\<bar> \<le> 2 ^ 50 \<longrightarrow> go_scale impl f64_1_8 n = word_of_int (trunc_1_8 (sint n)))
   \<and> (accumulatedTurns s = 0 \<and> frequency s \<noteq> 0 \<longrightarrow>
      wheel_run impl s [Turns 3, Turns 2, Turns (- 1), Tick fails] =
        (s\<lparr>accumulatedTurns := 0, turning := 0 <s frequency s,
           frequency := word_of_int (spec_new_value (sint (frequency s)) 4)\<rparr>,
         SetVFOFrequencyCall (word_of_int (spec_new_value (sint (frequency s)) 4))
           # (if fails then [LogPrintf] else []))
      \<and> word_of_int (spec_new_value (sint (frequency s)) 4) = frequency s + 7)"
proof (intro conjI impI)
  assume "accumulatedTurns s \<noteq> 0 \<and> frequency s \<noteq> 0"
  then show "wheel_tick impl fails s =
        (s\<lparr>frequency := frequency s + go_scale impl f64_1_8 (accumulatedTurns s),
           accumulatedTurns := 0\<rparr>,
         SetVFOFrequencyCall (frequency s + go_scale impl f64_1_8 (accumulatedTurns s))
           # (if fails then [LogPrintf] else []))"
    by (simp add: wheel_tick_def Let_def)
next
  assume "\<bar>sint n\<bar> \<le> 2 ^ 50"
  then show "go_scale impl f64_1_8 n = word_of_int (trunc_1_8 (sint n))"
    by (rule go_scale_1_8)
next
  show new: "word_of_int (spec_new_value (sint (frequency s)) 4) = frequency s + 7"
    by (simp add: spec_new_value_eq)
  assume a: "accumulatedTurns s = 0 \<and> frequency s \<noteq> 0"
  have four: "go_scale impl f64_1_8 4 = 7"
    by (simp add: go_scale_1_8 trunc_1_8_def)
  from a show "wheel_run impl s [Turns 3, Turns 2, Turns (- 1), Tick fails] =
        (s\<lparr>accumulatedTurns := 0, turning := 0 <s frequency s,
           frequency := word_of_int (spec_new_value (sint (frequency s)) 4)\<rparr>,
         SetVFOFrequencyCall (word_of_int (spec_new_value (sint (frequency s)) 4))
           # (if fails then [LogPrintf] else []))"
    unfolding new by (simp add: wheel_turns_def wheel_tick_def four Let_def)
qed

text \<open>Claim C2, amended: the theorem at \<open>accumulatedTurns = -3\<close> with a failing call, and
  the burst from the baseline 7000000.\<close>

theorem wheel_tick_dispatch_witness:
  "wheel_tick amd64_overflow True \<lparr>accumulatedTurns = - 3, turning = True, frequency = 7000000\<rparr>
     = (\<lparr>accumulatedTurns = 0, turning = True, frequency = 6999995\<rparr>,
        [SetVFOFrequencyCall 6999995, LogPrintf])
   \<and> wheel_run amd64_overflow \<lparr>accumulatedTurns = 0, turning = False, frequency = 7000000\<rparr>
        [Turns 3, Turns 2, Turns (- 1), Tick False]
     = (\<lparr>accumulatedTurns = 0, turning = True, frequency = 7000007\<rparr>,
        [SetVFOFrequencyCall 7000007])"
  using wheel_tick_dispatch [of "\<lparr>accumulatedTurns = - 3, turning = True, frequency = 7000000\<rparr>"
      amd64_overflow True "- 3"]
    wheel_tick_dispatch [of "\<lparr>accumulatedTurns = 0, turning = False, frequency = 7000000\<rparr>"
      amd64_overflow False]
  by (simp add: trunc_1_8_def word_sless_alt)

text \<open>
  Counterexample to claim C4 as stated. After the feedback \<open>-5\<close> the baseline is nonzero,
  yet a turn leaves \<open>turning\<close> false: the loop tests \<^verbatim>\<open>frequency > 0\<close>.
\<close>

theorem wheel_turns_positive_counterexample:
  "frequency (wheel_frequency wheel_init (- 5)) \<noteq> 0
   \<and> turning (wheel_turns (wheel_frequency wheel_init (- 5)) 1) = False"
  by (simp add: wheel_init_def wheel_frequency_def wheel_turns_def word_sless_alt)

text \<open>
  Claim C4, amended. In every state, a turn delta is added to \<open>accumulatedTurns\<close>
  (wrapping around as Go's \<^verbatim>\<open>int\<close> does) and \<open>turning\<close> becomes true exactly when
  \<open>frequency\<close> is greater than zero, false when it is zero or negative; \<open>frequency\<close> is
  unchanged.
\<close>

theorem wheel_turns_effect:
  "accumulatedTurns (wheel_turns s n) = accumulatedTurns s + n
   \<and> turning (wheel_turns s n) = (0 < sint (frequency s))
   \<and> frequency (wheel_turns s n) = frequency s"
  by (simp add: wheel_turns_def word_sless_alt)

text \<open>
  Claim C5. In every state, a baseline report overwrites \<open>frequency\<close> with the reported
  value when \<open>turning\<close> is false and changes nothing else, and leaves the whole state
  unchanged when \<open>turning\<close> is true.
\<close>

theorem wheel_frequency_effect:
  "(\<not> turning s \<longrightarrow> wheel_frequency s f = s\<lparr>frequency := f\<rparr>)
   \<and> (turning s \<longrightarrow> wheel_frequency s f = s)"
  by (simp add: wheel_frequency_def)

text \<open>Claim C5 at a state that is not turning and at one that is.\<close>

theorem wheel_frequency_effect_witness:
  "wheel_frequency \<lparr>accumulatedTurns = 2, turning = False, frequency = 7000000\<rparr> 7100000
     = \<lparr>accumulatedTurns = 2, turning = False, frequency = 7100000\<rparr>
   \<and> wheel_frequency \<lparr>accumulatedTurns = 2, turning = True, frequency = 7000000\<rparr> 7100000
     = \<lparr>accumulatedTurns = 2, turning = True, frequency = 7000000\<rparr>"
  using wheel_frequency_effect [of "\<lparr>accumulatedTurns = 2, turning = False, frequency = 7000000\<rparr>" 7100000]
    wheel_frequency_effect [of "\<lparr>accumulatedTurns = 2, turning = True, frequency = 7000000\<rparr>" 7100000]
  by simp

lemma wheel_run_no_baseline:
  assumes "\<forall>e \<in> set es. \<not> is_frequency e" and "frequency s = 0"
  shows "snd (wheel_run impl s es) = []
    \<and> accumulatedTurns (fst (wheel_run impl s es)) = accumulatedTurns s + sum_list (map turns_of es)
    \<and> frequency (fst (wheel_run impl s es)) = 0"
  using assms
proof (induction es arbitrary: s)
  case Nil
  then show ?case by simp
next
  case (Cons e es)
  obtain s' out where step: "wheel_step impl s e = (s', out)" by (cases "wheel_step impl s e")
  from Cons.prems have nf: "\<not> is_frequency e" and rest: "\<forall>e \<in> set es. \<not> is_frequency e" by simp_all
  from nf step Cons.prems(2)
  have s': "out = [] \<and> frequency s' = 0 \<and> accumulatedTurns s' = accumulatedTurns s + turns_of e"
    by (cases e) (auto simp: wheel_turns_def wheel_tick_def split: if_splits)
  from Cons.IH [OF rest, of s'] s'
  show ?case by (simp add: step split: prod.splits)
qed

text \<open>
  Claim C6. From the initial state of the loop, over every sequence of turn deltas and
  ticks with no baseline report, the loop makes no \<^verbatim>\<open>SetVFOFrequency\<close> call (it has no
  effect at all); \<open>frequency\<close> stays 0 and \<open>accumulatedTurns\<close> holds the sum of all the
  deltas.
\<close>

theorem wheel_no_dispatch_without_baseline:
  assumes "\<forall>e \<in> set es. \<not> is_frequency e"
  shows "snd (wheel_run impl wheel_init es) = []
    \<and> accumulatedTurns (fst (wheel_run impl wheel_init es)) = sum_list (map turns_of es)
    \<and> frequency (fst (wheel_run impl wheel_init es)) = 0"
  using wheel_run_no_baseline [OF assms, of wheel_init impl] by (simp add: wheel_init_def)

text \<open>Claim C6 on two turns, each followed by a tick.\<close>

theorem wheel_no_dispatch_without_baseline_witness:
  "snd (wheel_run amd64_overflow wheel_init [Turns 3, Tick False, Turns 2, Tick True]) = []
   \<and> accumulatedTurns (fst (wheel_run amd64_overflow wheel_init [Turns 3, Tick False, Turns 2, Tick True])) = 5
   \<and> frequency (fst (wheel_run amd64_overflow wheel_init [Turns 3, Tick False, Turns 2, Tick True])) = 0"
  using wheel_no_dispatch_without_baseline [of "[Turns 3, Tick False, Turns 2, Tick True]" amd64_overflow]
  by simp

section \<open>The claim about the volume slider\<close>

text \<open>
  Claim C10. The translation function of the volume slider maps every MIDI value \<open>v\<close>
  with \<open>0 \<le> v \<le> 127\<close> into the range from \<open>-60\<close> to \<open>0\<close>, is monotone on that range,
  and maps 0 to \<open>-60\<close> and 127 to 0.
\<close>

theorem volume_translate_range_monotone:
  "(0 \<le>s v \<and> v \<le>s w \<and> w \<le>s 127 \<longrightarrow>
      - 60 \<le>s volume_translate impl v \<and> volume_translate impl v \<le>s 0
      \<and> volume_translate impl v \<le>s volume_translate impl w)
   \<and> volume_translate impl 0 = - 60
   \<and> volume_translate impl 127 = 0"
proof (intro conjI impI)
  assume a: "0 \<le>s v \<and> v \<le>s w \<and> w \<le>s 127"
  then have v: "0 \<le> sint v" "sint v \<le> 127" and w: "0 \<le> sint w" "sint w \<le> 127"
    and vw: "sint v \<le> sint w"
    by (simp_all add: word_sle_eq)
  have tv: "sint (volume_translate impl v) = - 60 + 60 * sint v div 127"
    using v by (rule sint_volume_translate)
  have tw: "sint (volume_translate impl w) = - 60 + 60 * sint w div 127"
    using w by (rule sint_volume_translate)
  have "60 * sint v div 127 \<le> 60 * 127 div 127" using v by (intro zdiv_mono1) simp_all
  moreover have "0 \<le> 60 * sint v div 127" using v by simp
  ultimately show "- 60 \<le>s volume_translate impl v" and "volume_translate impl v \<le>s 0"
    by (simp_all add: word_sle_eq tv)
  have "60 * sint v div 127 \<le> 60 * sint w div 127" using vw by (intro zdiv_mono1) simp_all
  then show "volume_translate impl v \<le>s volume_translate impl w"
    by (simp add: word_sle_eq tv tw)
next
  have "sint (volume_translate impl 0) = - 60"
    using sint_volume_translate [of 0 impl] by simp
  then show "volume_translate impl 0 = - 60"
    by (intro signed_word_eqI) simp
next
  have "sint (volume_translate impl 127) = 0"
    using sint_volume_translate [of 127 impl] by simp
  then show "volume_translate impl 127 = 0"
    by (intro signed_word_eqI) simp
qed

text \<open>Claim C10 at the MIDI values 64 and 100.\<close>

theorem volume_translate_range_monotone_witness:
  "- 60 \<le>s volume_translate amd64_overflow 64 \<and> volume_translate amd64_overflow 64 \<le>s 0
      \<and> volume_translate amd64_overflow 64 \<le>s volume_translate amd64_overflow 100"
  using volume_translate_range_monotone [of 64 100 amd64_overflow] by (simp add: word_sle_eq)

section \<open>The claims about the value coalescer\<close>

lemma slider_run_Cons:
  "slider_run s (e # es) =
     (fst (slider_run (fst (slider_step s e)) es),
      (case snd (slider_step s e) of None \<Rightarrow> [] | Some v \<Rightarrow> [v])
        @ snd (slider_run (fst (slider_step s e)) es))"
  by (simp split: prod.splits)

lemma slider_run_append:
  "slider_run s (es @ es') =
     (fst (slider_run (fst (slider_run s es)) es'),
      snd (slider_run s es) @ snd (slider_run (fst (slider_run s es)) es'))"
  by (induction es arbitrary: s) (simp_all add: slider_run_Cons del: slider_run.simps(2))

text \<open>
  Counterexample to claim C1 as stated. From the initial state, two target reports in
  one tick window, each finding the executor ready to receive, cause two calls of
  \<^verbatim>\<open>set\<close>, with 5 and with 7; and a single target report equal to the active value
  causes none. The same in the whole system of a volume slider: the executor reaches its
  \<^verbatim>\<open>select\<close>, \<^verbatim>\<open>Changed(0)\<close> is called and the loop takes the value, the call of
  \<^verbatim>\<open>set\<close> returns, \<^verbatim>\<open>Changed(64)\<close> is called and the loop takes the value, with no
  tick in between: \<^verbatim>\<open>set\<close> has been called with \<open>-60\<close> and with \<open>-30\<close>.
\<close>

theorem slider_window_counterexample:
  "slider_run slider_init [Selected 5 True, Selected 7 True]
     = (\<lparr>activeValue = 0, selectedValue = 7, pending = False\<rparr>, [5, 7])
   \<and> slider_run slider_init [Selected 0 True]
     = (\<lparr>activeValue = 0, selectedValue = 0, pending = False\<rparr>, [])
   \<and> slider_sys_run
        [Executor ExecLoops, CallChanged 0, SGoroutine CaseSelected,
         Executor ExecLoops, CallChanged 64, SGoroutine CaseSelected]
        (slider_sys_init (volume_translate amd64_overflow))
     = Some \<lparr>slider = NewSlider (volume_translate amd64_overflow),
           slocals = \<lparr>activeValue = 0, selectedValue = - 30, pending = False\<rparr>,
           exec = ExecRunning, set_calls = [- 60, - 30], sclosers = [], scloses_returned = 0\<rparr>"
  by (simp add: slider_init_def slider_selected_def slider_handoff_def slider_sys_init_def
      NewSlider_def make_chan_def Changed_def chan_send_def chan_recv_def slider_deliver_def
      volume_translate_0 volume_translate_64)

text \<open>
  Claim C1, amended. For every sequence of target reports that the loop processes within
  one tick window (no tick and no active report in between), from any state of the loop:
  the calls of \<^verbatim>\<open>set\<close> are, in submission order, the submitted values that differ from
  \<open>activeValue\<close> and found the executor ready to receive, one call each (so there may be
  none, one or several); \<open>activeValue\<close> is unchanged and \<open>selectedValue\<close> ends as the
  last value submitted. When the last report differs from \<open>activeValue\<close> and found the
  executor ready, the last call of the window carries the last value submitted. The tick
  that closes the window adds one more call, carrying the last value submitted, exactly
  when that value differs from \<open>activeValue\<close> and the executor is ready at the tick;
  otherwise the tick makes no call.
\<close>

theorem slider_window_calls:
  "snd (slider_run s (map (\<lambda>(v, ready). Selected v ready) xs))
      = map fst (filter (\<lambda>(v, ready). v \<noteq> activeValue s \<and> ready) xs)
   \<and> activeValue (fst (slider_run s (map (\<lambda>(v, ready). Selected v ready) xs))) = activeValue s
   \<and> (xs \<noteq> [] \<longrightarrow>
        selectedValue (fst (slider_run s (map (\<lambda>(v, ready). Selected v ready) xs))) = fst (last xs))
   \<and> (xs \<noteq> [] \<and> fst (last xs) \<noteq> activeValue s \<and> snd (last xs) \<longrightarrow>
        snd (slider_run s (map (\<lambda>(v, ready). Selected v ready) xs)) \<noteq> []
        \<and> last (snd (slider_run s (map (\<lambda>(v, ready). Selected v ready) xs))) = fst (last xs))
   \<and> (xs \<noteq> [] \<longrightarrow>
        snd (slider_run s (map (\<lambda>(v, ready). Selected v ready) xs @ [STick ready']))
          = map fst (filter (\<lambda>(v, ready). v \<noteq> activeValue s \<and> ready) xs)
            @ (if fst (last xs) \<noteq> activeValue s \<and> ready' then [fst (last xs)] else []))"
proof -
  let ?w = "map (\<lambda>(v, ready). Selected v ready) xs"
  have window: "snd (slider_run s ?w)
      = map fst (filter (\<lambda>(v, ready). v \<noteq> activeValue s \<and> ready) xs)
    \<and> activeValue (fst (slider_run s ?w)) = activeValue s
    \<and> (xs \<noteq> [] \<longrightarrow> selectedValue (fst (slider_run s ?w)) = fst (last xs))"
  proof (induction xs arbitrary: s)
    case Nil
    show ?case by simp
  next
    case (Cons x xs)
    obtain v ready where x: "x = (v, ready)" by (cases x)
    obtain s' out where step: "slider_selected ready s v = (s', out)"
      by (cases "slider_selected ready s v")
    then have s': "activeValue s' = activeValue s" "selectedValue s' = v"
      and out: "out = (if v \<noteq> activeValue s \<and> ready then Some v else None)"
      by (auto simp: slider_selected_def slider_handoff_def Let_def split: if_splits)
    from Cons.IH [of s'] s' out show ?case
      by (simp add: x step slider_run_Cons del: slider_run.simps(2))
  qed
  have lastcall: "snd (slider_run s ?w) \<noteq> [] \<and> last (snd (slider_run s ?w)) = fst (last xs)"
    if "xs \<noteq> []" and "fst (last xs) \<noteq> activeValue s" and "snd (last xs)"
  proof -
    from that(1) obtain ys y where xs: "xs = ys @ [y]" by (metis rev_exhaust)
    with that(2,3) have "filter (\<lambda>(v, ready). v \<noteq> activeValue s \<and> ready) xs
        = filter (\<lambda>(v, ready). v \<noteq> activeValue s \<and> ready) ys @ [y]"
      by (simp add: case_prod_beta)
    with window xs show ?thesis by simp
  qed
  have tick: "snd (slider_run s (?w @ [STick ready']))
      = map fst (filter (\<lambda>(v, ready). v \<noteq> activeValue s \<and> ready) xs)
        @ (if fst (last xs) \<noteq> activeValue s \<and> ready' then [fst (last xs)] else [])"
    if "xs \<noteq> []"
  proof -
    from window that have a: "activeValue (fst (slider_run s ?w)) = activeValue s"
      and b: "selectedValue (fst (slider_run s ?w)) = fst (last xs)" by simp_all
    have "snd (slider_run (fst (slider_run s ?w)) [STick ready'])
        = (if fst (last xs) \<noteq> activeValue s \<and> ready' then [fst (last xs)] else [])"
      using a b by (auto simp: slider_tick_def slider_handoff_def)
    with window show ?thesis by (simp add: slider_run_append)
  qed
  from window lastcall tick show ?thesis by blast
qed

text \<open>Claim C1, amended. A window of four reports from the active value 3: the second
  report equals the active value and the third finds the executor busy. A window of two
  reports of which the last finds the executor busy, closed by a tick that hands that
  last value over.\<close>

theorem slider_window_calls_witness:
  "snd (slider_run \<lparr>activeValue = 3, selectedValue = 3, pending = False\<rparr>
          [Selected 5 True, Selected 3 True, Selected 8 False, Selected 9 True]) = [5, 9]
   \<and> selectedValue (fst (slider_run \<lparr>activeValue = 3, selectedValue = 3, pending = False\<rparr>
          [Selected 5 True, Selected 3 True, Selected 8 False, Selected 9 True])) = 9
   \<and> last (snd (slider_run \<lparr>activeValue = 3, selectedValue = 3, pending = False\<rparr>
          [Selected 5 True, Selected 3 True, Selected 8 False, Selected 9 True])) = 9
   \<and> snd (slider_run \<lparr>activeValue = 3, selectedValue = 3, pending = False\<rparr>
          [Selected 5 True, Selected 8 False, STick True]) = [5, 8]"
  using slider_window_calls [of "\<lparr>activeValue = 3, selectedValue = 3, pending = False\<rparr>"
      "[(5, True), (3, True), (8, False), (9, True)]"]
    slider_window_calls [of "\<lparr>activeValue = 3, selectedValue = 3, pending = False\<rparr>"
      "[(5, True), (8, False)]" True]
  by simp

text \<open>
  Counterexample to claim C3 as stated. A target 5 has been set and handed over, so
  \<open>pending\<close> is false; the active report 3 then overwrites \<open>selectedValue\<close>, although a
  target has been set.
\<close>

theorem slider_active_counterexample:
  "slider_run slider_init [Selected 5 True]
     = (\<lparr>activeValue = 0, selectedValue = 5, pending = False\<rparr>, [5])
   \<and> slider_active \<lparr>activeValue = 0, selectedValue = 5, pending = False\<rparr> 3
     = \<lparr>activeValue = 3, selectedValue = 3, pending = False\<rparr>"
  by (simp add: slider_init_def slider_selected_def slider_handoff_def slider_active_def)

text \<open>
  Claim C3, amended. Processing an active report sets \<open>activeValue\<close> to the reported
  value and leaves \<open>pending\<close> as it is; \<open>selectedValue\<close> is overwritten with the
  reported value if and only if \<open>pending\<close> is false, whether or not a target has been
  set, and is unchanged otherwise.
\<close>

theorem slider_active_effect:
  "activeValue (slider_active s v) = v
   \<and> pending (slider_active s v) = pending s
   \<and> (\<not> pending s \<longrightarrow> selectedValue (slider_active s v) = v)
   \<and> (pending s \<longrightarrow> selectedValue (slider_active s v) = selectedValue s)"
  by (simp add: slider_active_def Let_def)

text \<open>Claim C3, amended, at a state that is not pending and at one that is.\<close>

theorem slider_active_effect_witness:
  "selectedValue (slider_active \<lparr>activeValue = 0, selectedValue = 5, pending = False\<rparr> 3) = 3
   \<and> selectedValue (slider_active \<lparr>activeValue = 0, selectedValue = 5, pending = True\<rparr> 3) = 5"
  using slider_active_effect [of "\<lparr>activeValue = 0, selectedValue = 5, pending = False\<rparr>" 3]
    slider_active_effect [of "\<lparr>activeValue = 0, selectedValue = 5, pending = True\<rparr>" 3]
  by simp

section \<open>The claims about the intake functions and \<^verbatim>\<open>Close\<close>\<close>

lemma wheel_sys_step_cap:
  assumes "wheel_sys_step impl a sys = Some sys'"
  shows "chan_cap (w_turns (wheel sys')) = chan_cap (w_turns (wheel sys))"
proof (cases a)
  case (Goroutine c)
  with assms show ?thesis
    by (cases c)
      (auto simp: chan_recv_def split: if_splits list.splits prod.splits outcome.splits option.splits)
next
  case (CallTurned n)
  with assms show ?thesis
    by (auto simp: Turned_def chan_send_def split: if_splits outcome.splits)
next
  case (CallSetVFOFrequency trx vfo f)
  with assms show ?thesis
    by (auto simp: SetVFOFrequency_def chan_send_def split: if_splits outcome.splits)
next
  case CallClose
  with assms show ?thesis
    by (auto simp: wheel_close_enter_def chan_close_def
        split: if_splits outcome.splits option.splits prod.splits)
next
  case (ResumeClose i)
  with assms show ?thesis
    by (cases "closers sys ! i")
      (auto simp: wheel_close_resume_def chan_close_def
        split: if_splits outcome.splits option.splits prod.splits)
qed

lemma wheel_sys_run_cap:
  "wheel_sys_run impl as sys = Some sys' \<Longrightarrow>
     chan_cap (w_turns (wheel sys')) = chan_cap (w_turns (wheel sys))"
proof (induction as arbitrary: sys)
  case Nil
  then show ?case by simp
next
  case (Cons a as)
  then obtain sys1 where 1: "wheel_sys_step impl a sys = Some sys1"
    and 2: "wheel_sys_run impl as sys1 = Some sys'"
    by (auto split: option.splits)
  from Cons.IH [OF 2] wheel_sys_step_cap [OF 1] show ?case by simp
qed

lemma slider_sys_step_cap:
  assumes "slider_sys_step a sys = Some sys'"
  shows "chan_cap (s_selectedValue (slider sys')) = chan_cap (s_selectedValue (slider sys))"
proof (cases a)
  case (SGoroutine c)
  with assms show ?thesis
    by (cases c)
      (auto simp: chan_recv_def slider_deliver_def slider_return_def
        split: if_splits list.splits prod.splits outcome.splits option.splits)
next
  case (Executor c)
  with assms show ?thesis
    by (cases c) (auto split: if_splits)
next
  case (CallChanged v)
  with assms show ?thesis
    by (auto simp: Changed_def chan_send_def split: if_splits outcome.splits)
next
  case (CallSetVolume v)
  with assms show ?thesis
    by (auto simp: SetVolume_def chan_send_def split: if_splits outcome.splits)
next
  case SCallClose
  with assms show ?thesis
    by (auto simp: slider_close_enter_def chan_close_def
        split: if_splits outcome.splits option.splits prod.splits)
next
  case (SResumeClose i)
  with assms show ?thesis
    by (cases "sclosers sys ! i")
      (auto simp: slider_close_resume_def chan_close_def
        split: if_splits outcome.splits option.splits prod.splits)
qed

lemma slider_sys_run_cap:
  "slider_sys_run as sys = Some sys' \<Longrightarrow>
     chan_cap (s_selectedValue (slider sys')) = chan_cap (s_selectedValue (slider sys))"
proof (induction as arbitrary: sys)
  case Nil
  then show ?case by simp
next
  case (Cons a as)
  then obtain sys1 where 1: "slider_sys_step a sys = Some sys1"
    and 2: "slider_sys_run as sys1 = Some sys'"
    by (auto split: option.splits)
  from Cons.IH [OF 2] slider_sys_step_cap [OF 1] show ?case by simp
qed

lemma wheel_sys_step_inv:
  assumes "wheel_sys_step impl a sys = Some sys'" and "wheel_closed_inv sys"
  shows "wheel_closed_inv sys'"
proof (cases a)
  case (Goroutine c)
  with assms show ?thesis
    by (cases c)
      (auto simp: wheel_closed_inv_def
        split: if_splits prod.splits outcome.splits option.splits)
next
  case (CallTurned n)
  with assms show ?thesis
    by (auto simp: wheel_closed_inv_def Turned_def chan_send_def split: if_splits outcome.splits)
next
  case (CallSetVFOFrequency trx vfo f)
  with assms show ?thesis
    by (auto simp: wheel_closed_inv_def SetVFOFrequency_def chan_send_def
        split: if_splits outcome.splits)
next
  case CallClose
  with assms show ?thesis
    by (auto simp: wheel_closed_inv_def wheel_close_enter_def chan_close_def
        split: if_splits outcome.splits option.splits prod.splits)
next
  case (ResumeClose i)
  with assms show ?thesis
    by (cases "closers sys ! i")
      (auto simp: wheel_closed_inv_def wheel_close_resume_def chan_close_def
        split: if_splits outcome.splits option.splits prod.splits)
qed

lemma wheel_sys_run_inv:
  "wheel_sys_run impl as sys = Some sys' \<Longrightarrow> wheel_closed_inv sys \<Longrightarrow> wheel_closed_inv sys'"
proof (induction as arbitrary: sys)
  case Nil
  then show ?case by simp
next
  case (Cons a as)
  from Cons.prems(1) obtain sys1 where 1: "wheel_sys_step impl a sys = Some sys1"
    and 2: "wheel_sys_run impl as sys1 = Some sys'"
    by (auto split: option.splits)
  from wheel_sys_step_inv [OF 1 Cons.prems(2)] have "wheel_closed_inv sys1" .
  with Cons.IH [OF 2] show ?case .
qed

lemma slider_sys_step_inv:
  assumes "slider_sys_step a sys = Some sys'" and "slider_closed_inv sys"
  shows "slider_closed_inv sys'"
proof (cases a)
  case (SGoroutine c)
  with assms show ?thesis
    by (cases c)
      (auto simp: slider_closed_inv_def slider_deliver_def slider_return_def
        split: if_splits prod.splits outcome.splits option.splits)
next
  case (Executor c)
  with assms show ?thesis
    by (cases c) (auto simp: slider_closed_inv_def split: if_splits)
next
  case (CallChanged v)
  with assms show ?thesis
    by (auto simp: slider_closed_inv_def Changed_def chan_send_def split: if_splits outcome.splits)
next
  case (CallSetVolume v)
  with assms show ?thesis
    by (auto simp: slider_closed_inv_def SetVolume_def chan_send_def
        split: if_splits outcome.splits)
next
  case SCallClose
  with assms show ?thesis
    by (auto simp: slider_closed_inv_def slider_close_enter_def chan_close_def
        split: if_splits outcome.splits option.splits prod.splits)
next
  case (SResumeClose i)
  with assms show ?thesis
    by (cases "sclosers sys ! i")
      (auto simp: slider_closed_inv_def slider_close_resume_def chan_close_def
        split: if_splits outcome.splits option.splits prod.splits)
qed

lemma slider_sys_run_inv:
  "slider_sys_run as sys = Some sys' \<Longrightarrow> slider_closed_inv sys \<Longrightarrow> slider_closed_inv sys'"
proof (induction as arbitrary: sys)
  case Nil
  then show ?case by simp
next
  case (Cons a as)
  from Cons.prems(1) obtain sys1 where 1: "slider_sys_step a sys = Some sys1"
    and 2: "slider_sys_run as sys1 = Some sys'"
    by (auto split: option.splits)
  from slider_sys_step_inv [OF 1 Cons.prems(2)] have "slider_closed_inv sys1" .
  with Cons.IH [OF 2] show ?case .
qed

text \<open>
  Claim C7. In every interleaving of the goroutine, the producers and the callers of
  \<^verbatim>\<open>Close\<close>, for the wheel and for the slider alike: once a call of \<^verbatim>\<open>Close\<close> has
  returned, the loop has exited (\<^verbatim>\<open>closed\<close> is closed), so that the loop takes no further
  event; and a further call of \<^verbatim>\<open>Close\<close> returns at once from its \<^verbatim>\<open>select\<close> and
  changes nothing (only the count of returned calls goes up).
\<close>

theorem close_returns_after_loop_exit:
  "(wheel_sys_run impl as (wheel_sys_init key trx vfo) = Some sys \<and> 0 < closes_returned sys \<longrightarrow>
      chan_closed (w_closed (wheel sys))
      \<and> (\<forall>c. wheel_goroutine impl c sys = None)
      \<and> VFOWheel_Close CloseEntry (wheel sys) = Returns (wheel sys, None)
      \<and> wheel_sys_step impl CallClose sys
          = Some (sys\<lparr>closes_returned := Suc (closes_returned sys)\<rparr>))
   \<and> (slider_sys_run bs (slider_sys_init translate) = Some ssys \<and> 0 < scloses_returned ssys \<longrightarrow>
      chan_closed (s_closed (slider ssys))
      \<and> (\<forall>c. slider_goroutine c ssys = None)
      \<and> Slider_Close SCloseEntry (slider ssys) = Returns (slider ssys, None)
      \<and> slider_sys_step SCallClose ssys
          = Some (ssys\<lparr>scloses_returned := Suc (scloses_returned ssys)\<rparr>))"
proof (intro conjI impI)
  assume a: "wheel_sys_run impl as (wheel_sys_init key trx vfo) = Some sys \<and> 0 < closes_returned sys"
  have "wheel_closed_inv (wheel_sys_init key trx vfo)"
    by (simp add: wheel_closed_inv_def wheel_sys_init_def)
  with a have "wheel_closed_inv sys" by (blast intro: wheel_sys_run_inv)
  with a have c: "chan_closed (w_closed (wheel sys))"
    by (simp add: wheel_closed_inv_def)
  from c show "chan_closed (w_closed (wheel sys))" .
  from c show "\<forall>c. wheel_goroutine impl c sys = None"
  proof (intro allI)
    fix k
    from c show "wheel_goroutine impl k sys = None" by (cases k) simp_all
  qed
  from c show "VFOWheel_Close CloseEntry (wheel sys) = Returns (wheel sys, None)" by simp
  from c show "wheel_sys_step impl CallClose sys
      = Some (sys\<lparr>closes_returned := Suc (closes_returned sys)\<rparr>)"
    by (simp add: wheel_close_enter_def)
next
  assume a: "slider_sys_run bs (slider_sys_init translate) = Some ssys \<and> 0 < scloses_returned ssys"
  have "slider_closed_inv (slider_sys_init translate)"
    by (simp add: slider_closed_inv_def slider_sys_init_def)
  with a have "slider_closed_inv ssys" by (blast intro: slider_sys_run_inv)
  with a have c: "chan_closed (s_closed (slider ssys))"
    by (simp add: slider_closed_inv_def)
  from c show "chan_closed (s_closed (slider ssys))" .
  from c show "\<forall>c. slider_goroutine c ssys = None"
  proof (intro allI)
    fix k
    from c show "slider_goroutine k ssys = None" by (cases k) simp_all
  qed
  from c show "Slider_Close SCloseEntry (slider ssys) = Returns (slider ssys, None)" by simp
  from c show "slider_sys_step SCallClose ssys
      = Some (ssys\<lparr>scloses_returned := Suc (scloses_returned ssys)\<rparr>)"
    by (simp add: slider_close_enter_def)
qed

text \<open>
  Claim C7 on two runs. Wheel: a turn is reported, \<^verbatim>\<open>Close\<close> is called and waits, the
  goroutine takes the turn and then finds \<^verbatim>\<open>turns\<close> closed, \<^verbatim>\<open>Close\<close> returns. Slider:
  \<^verbatim>\<open>Close\<close> closes both channels and waits, the loop finds \<^verbatim>\<open>activeValue\<close> closed,
  \<^verbatim>\<open>Close\<close> returns. In both final states a second \<^verbatim>\<open>Close\<close> only returns.
\<close>

theorem close_returns_after_loop_exit_witness:
  "wheel_sys_step amd64_overflow CallClose
      \<lparr>wheel = \<lparr>w_key = \<lparr>Channel = 0, Key = 1\<rparr>, w_trx = 0, w_vfo = (0::nat),
                w_frequency = \<lparr>chan_cap = 1000, chan_buf = [], chan_closed = False\<rparr>,
                w_turns = \<lparr>chan_cap = 1000, chan_buf = [], chan_closed = True\<rparr>,
                w_closed = \<lparr>chan_cap = 0, chan_buf = [], chan_closed = True\<rparr>\<rparr>,
       locals = \<lparr>accumulatedTurns = 3, turning = False, frequency = 0\<rparr>,
       effects = [], closers = [], closes_returned = 1\<rparr>
    = Some
      \<lparr>wheel = \<lparr>w_key = \<lparr>Channel = 0, Key = 1\<rparr>, w_trx = 0, w_vfo = (0::nat),
                w_frequency = \<lparr>chan_cap = 1000, chan_buf = [], chan_closed = False\<rparr>,
                w_turns = \<lparr>chan_cap = 1000, chan_buf = [], chan_closed = True\<rparr>,
                w_closed = \<lparr>chan_cap = 0, chan_buf = [], chan_closed = True\<rparr>\<rparr>,
       locals = \<lparr>accumulatedTurns = 3, turning = False, frequency = 0\<rparr>,
       effects = [], closers = [], closes_returned = 2\<rparr>
   \<and> slider_sys_step SCallClose
      \<lparr>slider = \<lparr>s_translate = volume_translate amd64_overflow,
                 s_activeValue = \<lparr>chan_cap = 1000, chan_buf = [], chan_closed = True\<rparr>,
                 s_selectedValue = \<lparr>chan_cap = 1000, chan_buf = [], chan_closed = True\<rparr>,
                 s_closed = \<lparr>chan_cap = 0, chan_buf = [], chan_closed = True\<rparr>\<rparr>,
       slocals = \<lparr>activeValue = 0, selectedValue = 0, pending = False\<rparr>,
       exec = ExecRunning, set_calls = [], sclosers = [], scloses_returned = 1\<rparr>
    = Some
      \<lparr>slider = \<lparr>s_translate = volume_translate amd64_overflow,
                 s_activeValue = \<lparr>chan_cap = 1000, chan_buf = [], chan_closed = True\<rparr>,
                 s_selectedValue = \<lparr>chan_cap = 1000, chan_buf = [], chan_closed = True\<rparr>,
                 s_closed = \<lparr>chan_cap = 0, chan_buf = [], chan_closed = True\<rparr>\<rparr>,
       slocals = \<lparr>activeValue = 0, selectedValue = 0, pending = False\<rparr>,
       exec = ExecRunning, set_calls = [], sclosers = [], scloses_returned = 2\<rparr>"
proof -
  let ?wsys = "\<lparr>wheel = \<lparr>w_key = \<lparr>Channel = 0, Key = 1\<rparr>, w_trx = 0, w_vfo = (0::nat),
                w_frequency = \<lparr>chan_cap = 1000, chan_buf = [], chan_closed = False\<rparr>,
                w_turns = \<lparr>chan_cap = 1000, chan_buf = [], chan_closed = True\<rparr>,
                w_closed = \<lparr>chan_cap = 0, chan_buf = [], chan_closed = True\<rparr>\<rparr>,
       locals = \<lparr>accumulatedTurns = 3, turning = False, frequency = 0\<rparr>,
       effects = [], closers = [], closes_returned = 1\<rparr>"
  let ?ssys = "\<lparr>slider = \<lparr>s_translate = volume_translate amd64_overflow,
                 s_activeValue = \<lparr>chan_cap = 1000, chan_buf = [], chan_closed = True\<rparr>,
                 s_selectedValue = \<lparr>chan_cap = 1000, chan_buf = [], chan_closed = True\<rparr>,
                 s_closed = \<lparr>chan_cap = 0, chan_buf = [], chan_closed = True\<rparr>\<rparr>,
       slocals = \<lparr>activeValue = 0, selectedValue = 0, pending = False\<rparr>,
       exec = ExecRunning, set_calls = [], sclosers = [], scloses_returned = 1\<rparr>"
  let ?as = "[CallTurned 3, CallClose, Goroutine CaseTurns, Goroutine CaseTurns, ResumeClose 0]"
  let ?bs = "[SCallClose, SResumeClose 0, SGoroutine CaseActive, SResumeClose 0]"
  have w: "wheel_sys_run amd64_overflow ?as (wheel_sys_init \<lparr>Channel = 0, Key = 1\<rparr> 0 (0::nat))
      = Some ?wsys"
    by (simp add: wheel_sys_init_def NewVFOWheel_def make_chan_def wheel_init_def Turned_def
        chan_send_def chan_recv_def chan_close_def wheel_close_enter_def wheel_close_resume_def
        wheel_turns_def)
  have s: "slider_sys_run ?bs (slider_sys_init (volume_translate amd64_overflow)) = Some ?ssys"
    by (simp add: slider_sys_init_def NewSlider_def make_chan_def slider_init_def
        chan_recv_def chan_close_def slider_close_enter_def slider_close_resume_def
        slider_return_def)
  have wpos: "0 < closes_returned ?wsys" and spos: "0 < scloses_returned ?ssys"
    by simp_all
  note t = close_returns_after_loop_exit [of amd64_overflow ?as "\<lparr>Channel = 0, Key = 1\<rparr>" 0 "0::nat"
      ?wsys ?bs "volume_translate amd64_overflow" ?ssys]
  from t w wpos have "wheel_sys_step amd64_overflow CallClose ?wsys
      = Some (?wsys\<lparr>closes_returned := Suc (closes_returned ?wsys)\<rparr>)"
    by blast
  moreover from t s spos have "slider_sys_step SCallClose ?ssys
      = Some (?ssys\<lparr>scloses_returned := Suc (scloses_returned ?ssys)\<rparr>)"
    by blast
  ultimately show ?thesis by simp
qed

text \<open>
  Claim C8. A feedback event for another target returns at once: \<^verbatim>\<open>SetVFOFrequency\<close>
  with a \<^verbatim>\<open>trx\<close> or \<^verbatim>\<open>vfo\<close> other than the wheel's leaves the wheel as it is (nothing
  is enqueued) and so leaves the whole system as it is, and \<^verbatim>\<open>SetRXChannelEnable\<close> with
  a \<^verbatim>\<open>trx\<close> or \<^verbatim>\<open>vfo\<close> other than the button's leaves the button as it is and sets
  no LED.
\<close>

theorem mismatched_feedback_ignored:
  "(trx \<noteq> w_trx w \<or> vfo \<noteq> w_vfo w \<longrightarrow> SetVFOFrequency w trx vfo f = Returns w)
   \<and> (trx \<noteq> w_trx (wheel sys) \<or> vfo \<noteq> w_vfo (wheel sys) \<longrightarrow>
        wheel_sys_step impl (CallSetVFOFrequency trx vfo f) sys = Some sys)
   \<and> (trx \<noteq> b_trx b \<or> vfo \<noteq> b_vfo b \<longrightarrow> SetRXChannelEnable b trx vfo enabled = (b, []))"
  by (simp add: SetVFOFrequency_def SetRXChannelEnable_def)

text \<open>Claim C8 at a wheel and a button for transceiver 0, VFO 0: feedback for
  transceiver 1, and feedback for VFO 1.\<close>

theorem mismatched_feedback_ignored_witness:
  "SetVFOFrequency (NewVFOWheel \<lparr>Channel = 0, Key = 1\<rparr> 0 (0::nat)) 1 0 7000000
     = Returns (NewVFOWheel \<lparr>Channel = 0, Key = 1\<rparr> 0 0)
   \<and> wheel_sys_step amd64_overflow (CallSetVFOFrequency 0 1 7000000)
        (wheel_sys_init \<lparr>Channel = 0, Key = 1\<rparr> 0 (0::nat))
     = Some (wheel_sys_init \<lparr>Channel = 0, Key = 1\<rparr> 0 0)
   \<and> SetRXChannelEnable \<lparr>b_key = \<lparr>Channel = 0, Key = 2\<rparr>, b_trx = 0, b_vfo = (0::nat), b_enabled = False\<rparr>
        0 1 True
     = (\<lparr>b_key = \<lparr>Channel = 0, Key = 2\<rparr>, b_trx = 0, b_vfo = 0, b_enabled = False\<rparr>, [])"
  using mismatched_feedback_ignored [where trx = 1 and vfo = 0
      and w = "NewVFOWheel \<lparr>Channel = 0, Key = 1\<rparr> 0 (0::nat)"]
    mismatched_feedback_ignored [where trx = 0 and vfo = 1
      and sys = "wheel_sys_init \<lparr>Channel = 0, Key = 1\<rparr> 0 (0::nat)"]
    mismatched_feedback_ignored [where trx = 0 and vfo = 1
      and b = "\<lparr>b_key = \<lparr>Channel = 0, Key = 2\<rparr>, b_trx = 0, b_vfo = (0::nat), b_enabled = False\<rparr>"]
  by (simp add: NewVFOWheel_def wheel_sys_init_def)

lemma wheel_sys_run_turned:
  assumes "chan_cap (w_turns (wheel sys)) = 1000" and "\<not> chan_closed (w_turns (wheel sys))"
    and "length (chan_buf (w_turns (wheel sys))) + n \<le> 1000"
  shows "wheel_sys_run impl (replicate n (CallTurned d)) sys =
     Some (sys\<lparr>wheel := (wheel sys)\<lparr>w_turns :=
        (w_turns (wheel sys))\<lparr>chan_buf := chan_buf (w_turns (wheel sys)) @ replicate n d\<rparr>\<rparr>\<rparr>)"
  using assms
proof (induction n arbitrary: sys)
  case 0
  then show ?case by simp
next
  case (Suc n)
  let ?sys1 = "sys\<lparr>wheel := (wheel sys)\<lparr>w_turns :=
        (w_turns (wheel sys))\<lparr>chan_buf := chan_buf (w_turns (wheel sys)) @ [d]\<rparr>\<rparr>\<rparr>"
  from Suc.prems have step: "wheel_sys_step impl (CallTurned d) sys = Some ?sys1"
    by (simp add: Turned_def chan_send_def)
  from Suc.prems have "wheel_sys_run impl (replicate n (CallTurned d)) ?sys1 =
     Some (?sys1\<lparr>wheel := (wheel ?sys1)\<lparr>w_turns :=
        (w_turns (wheel ?sys1))\<lparr>chan_buf := chan_buf (w_turns (wheel ?sys1)) @ replicate n d\<rparr>\<rparr>\<rparr>)"
    by (intro Suc.IH) simp_all
  with step show ?case by (simp add: replicate_app_Cons_same)
qed

text \<open>
  Counterexample to claim C9 as stated. A thousand calls of \<^verbatim>\<open>Turned\<close> complete while
  the goroutine takes no turn (it is not scheduled, or it is inside the controller call);
  they fill the buffer of \<^verbatim>\<open>turns\<close>, and the next call of \<^verbatim>\<open>Turned\<close> blocks.
\<close>

theorem turned_blocks_counterexample:
  "wheel_sys_run amd64_overflow (replicate 1000 (CallTurned 1))
      (wheel_sys_init \<lparr>Channel = 0, Key = 1\<rparr> 0 (0::nat))
     = Some ((wheel_sys_init \<lparr>Channel = 0, Key = 1\<rparr> 0 0)
         \<lparr>wheel := (NewVFOWheel \<lparr>Channel = 0, Key = 1\<rparr> 0 0)
            \<lparr>w_turns := \<lparr>chan_cap = 1000, chan_buf = replicate 1000 1, chan_closed = False\<rparr>\<rparr>\<rparr>)
   \<and> Turned ((NewVFOWheel \<lparr>Channel = 0, Key = 1\<rparr> 0 (0::nat))
         \<lparr>w_turns := \<lparr>chan_cap = 1000, chan_buf = replicate 1000 1, chan_closed = False\<rparr>\<rparr>) 1
     = Blocks"
proof -
  have "wheel_sys_run amd64_overflow (replicate 1000 (CallTurned 1))
      (wheel_sys_init \<lparr>Channel = 0, Key = 1\<rparr> 0 (0::nat))
     = Some ((wheel_sys_init \<lparr>Channel = 0, Key = 1\<rparr> 0 0)
         \<lparr>wheel := (NewVFOWheel \<lparr>Channel = 0, Key = 1\<rparr> 0 0)
            \<lparr>w_turns := \<lparr>chan_cap = 1000, chan_buf = replicate 1000 1, chan_closed = False\<rparr>\<rparr>\<rparr>)"
    by (subst wheel_sys_run_turned)
      (simp_all add: wheel_sys_init_def NewVFOWheel_def make_chan_def)
  moreover have "Turned ((NewVFOWheel \<lparr>Channel = 0, Key = 1\<rparr> 0 (0::nat))
         \<lparr>w_turns := \<lparr>chan_cap = 1000, chan_buf = replicate 1000 1, chan_closed = False\<rparr>\<rparr>) 1
     = Blocks"
    by (simp add: Turned_def chan_send_def)
  ultimately show ?thesis by (rule conjI)
qed

text \<open>
  Claim C9, amended. In every state that the wheel (the slider) can reach, a call of
  \<^verbatim>\<open>Turned\<close> (of \<^verbatim>\<open>Changed\<close>) returns without blocking, having enqueued its value,
  whenever the intake channel has not been closed and fewer than 1000 earlier values are
  still unprocessed in it; it blocks exactly when the channel is open and holds 1000
  unprocessed values.
\<close>

theorem intake_returns_below_capacity:
  "(wheel_sys_run impl as (wheel_sys_init key trx vfo) = Some sys \<longrightarrow>
      (\<not> chan_closed (w_turns (wheel sys)) \<and> length (chan_buf (w_turns (wheel sys))) < 1000 \<longrightarrow>
         Turned (wheel sys) n
           = Returns ((wheel sys)\<lparr>w_turns :=
               (w_turns (wheel sys))\<lparr>chan_buf := chan_buf (w_turns (wheel sys)) @ [n]\<rparr>\<rparr>))
      \<and> (Turned (wheel sys) n = Blocks \<longleftrightarrow>
           \<not> chan_closed (w_turns (wheel sys)) \<and> 1000 \<le> length (chan_buf (w_turns (wheel sys)))))
   \<and> (slider_sys_run bs (slider_sys_init translate) = Some ssys \<longrightarrow>
      (\<not> chan_closed (s_selectedValue (slider ssys))
          \<and> length (chan_buf (s_selectedValue (slider ssys))) < 1000 \<longrightarrow>
         Changed (slider ssys) v
           = Returns ((slider ssys)\<lparr>s_selectedValue :=
               (s_selectedValue (slider ssys))\<lparr>chan_buf :=
                  chan_buf (s_selectedValue (slider ssys)) @ [s_translate (slider ssys) v]\<rparr>\<rparr>))
      \<and> (Changed (slider ssys) v = Blocks \<longleftrightarrow>
           \<not> chan_closed (s_selectedValue (slider ssys))
           \<and> 1000 \<le> length (chan_buf (s_selectedValue (slider ssys)))))"
proof (intro conjI impI)
  assume r: "wheel_sys_run impl as (wheel_sys_init key trx vfo) = Some sys"
  have cap: "chan_cap (w_turns (wheel sys)) = 1000"
    using wheel_sys_run_cap [OF r] by (simp add: wheel_sys_init_def NewVFOWheel_def make_chan_def)
  show "Turned (wheel sys) n = Blocks \<longleftrightarrow>
      \<not> chan_closed (w_turns (wheel sys)) \<and> 1000 \<le> length (chan_buf (w_turns (wheel sys)))"
    by (auto simp: Turned_def chan_send_def cap)
  assume "\<not> chan_closed (w_turns (wheel sys)) \<and> length (chan_buf (w_turns (wheel sys))) < 1000"
  then show "Turned (wheel sys) n
      = Returns ((wheel sys)\<lparr>w_turns :=
          (w_turns (wheel sys))\<lparr>chan_buf := chan_buf (w_turns (wheel sys)) @ [n]\<rparr>\<rparr>)"
    by (simp add: Turned_def chan_send_def cap)
next
  assume r: "slider_sys_run bs (slider_sys_init translate) = Some ssys"
  have cap: "chan_cap (s_selectedValue (slider ssys)) = 1000"
    using slider_sys_run_cap [OF r] by (simp add: slider_sys_init_def NewSlider_def make_chan_def)
  show "Changed (slider ssys) v = Blocks \<longleftrightarrow>
      \<not> chan_closed (s_selectedValue (slider ssys))
      \<and> 1000 \<le> length (chan_buf (s_selectedValue (slider ssys)))"
    by (auto simp: Changed_def chan_send_def cap)
  assume "\<not> chan_closed (s_selectedValue (slider ssys))
      \<and> length (chan_buf (s_selectedValue (slider ssys))) < 1000"
  then show "Changed (slider ssys) v
      = Returns ((slider ssys)\<lparr>s_selectedValue :=
          (s_selectedValue (slider ssys))\<lparr>chan_buf :=
             chan_buf (s_selectedValue (slider ssys)) @ [s_translate (slider ssys) v]\<rparr>\<rparr>)"
    by (simp add: Changed_def chan_send_def cap)
qed

text \<open>Claim C9, amended, after one earlier call of each intake function: the second
  call returns with its value enqueued behind the first.\<close>

theorem intake_returns_below_capacity_witness:
  "Turned ((NewVFOWheel \<lparr>Channel = 0, Key = 1\<rparr> 0 (0::nat))
       \<lparr>w_turns := \<lparr>chan_cap = 1000, chan_buf = [3], chan_closed = False\<rparr>\<rparr>) 4
     = Returns ((NewVFOWheel \<lparr>Channel = 0, Key = 1\<rparr> 0 0)
         \<lparr>w_turns := \<lparr>chan_cap = 1000, chan_buf = [3, 4], chan_closed = False\<rparr>\<rparr>)
   \<and> Changed ((NewSlider (volume_translate amd64_overflow))
       \<lparr>s_selectedValue := \<lparr>chan_cap = 1000, chan_buf = [volume_translate amd64_overflow 64],
                              chan_closed = False\<rparr>\<rparr>) 100
     = Returns ((NewSlider (volume_translate amd64_overflow))
         \<lparr>s_selectedValue := \<lparr>chan_cap = 1000,
             chan_buf = [volume_translate amd64_overflow 64, volume_translate amd64_overflow 100],
             chan_closed = False\<rparr>\<rparr>)"
proof -
  let ?w = "(NewVFOWheel \<lparr>Channel = 0, Key = 1\<rparr> 0 (0::nat))
       \<lparr>w_turns := \<lparr>chan_cap = 1000, chan_buf = [3], chan_closed = False\<rparr>\<rparr>"
  let ?wsys = "(wheel_sys_init \<lparr>Channel = 0, Key = 1\<rparr> 0 (0::nat))\<lparr>wheel := ?w\<rparr>"
  let ?s = "(NewSlider (volume_translate amd64_overflow))
       \<lparr>s_selectedValue := \<lparr>chan_cap = 1000, chan_buf = [volume_translate amd64_overflow 64],
                              chan_closed = False\<rparr>\<rparr>"
  let ?ssys = "(slider_sys_init (volume_translate amd64_overflow))\<lparr>slider := ?s\<rparr>"
  have w: "wheel_sys_run amd64_overflow [CallTurned 3]
      (wheel_sys_init \<lparr>Channel = 0, Key = 1\<rparr> 0 (0::nat)) = Some ?wsys"
    by (simp add: wheel_sys_init_def NewVFOWheel_def make_chan_def Turned_def chan_send_def)
  have s: "slider_sys_run [CallChanged 64] (slider_sys_init (volume_translate amd64_overflow))
      = Some ?ssys"
    by (simp add: slider_sys_init_def NewSlider_def make_chan_def Changed_def chan_send_def)
  have wpre: "\<not> chan_closed (w_turns (wheel ?wsys)) \<and> length (chan_buf (w_turns (wheel ?wsys))) < 1000"
    by simp
  have spre: "\<not> chan_closed (s_selectedValue (slider ?ssys))
      \<and> length (chan_buf (s_selectedValue (slider ?ssys))) < 1000"
    by simp
  note t = intake_returns_below_capacity [of amd64_overflow "[CallTurned 3]"
      "\<lparr>Channel = 0, Key = 1\<rparr>" 0 "0::nat" ?wsys 4 "[CallChanged 64]"
      "volume_translate amd64_overflow" ?ssys 100]
  from t w wpre have "Turned (wheel ?wsys) 4
      = Returns ((wheel ?wsys)\<lparr>w_turns :=
          (w_turns (wheel ?wsys))\<lparr>chan_buf := chan_buf (w_turns (wheel ?wsys)) @ [4]\<rparr>\<rparr>)"
    by blast
  moreover from t s spre have "Changed (slider ?ssys) 100
      = Returns ((slider ?ssys)\<lparr>s_selectedValue :=
          (s_selectedValue (slider ?ssys))\<lparr>chan_buf :=
             chan_buf (s_selectedValue (slider ?ssys)) @ [s_translate (slider ?ssys) 100]\<rparr>\<rparr>)"
    by blast
  ultimately show ?thesis by (simp add: NewSlider_def)
qed

end
